theory Spec2Isabelle
  imports Main
begin

section \<open>The buffer manager of \<^verbatim>\<open>src/buffer.cpp\<close>\<close>

text \<open>
  \<^verbatim>\<open>BufMgr\<close> keeps a fixed pool of frames, one descriptor per frame, a hash table
  from (file, page number) to frame number and a clock hand. The embedding passes the
  manager's state explicitly; every C++ exception is an \<open>Inl\<close> result paired with
  the state the exception leaves behind, since no method rolls anything back.

  \<^verbatim>\<open>File*\<close>, \<^verbatim>\<open>PageId\<close> and \<^verbatim>\<open>FrameId\<close> are identities and
  \<^verbatim>\<open>std::uint32_t\<close> values. They are natural numbers here, and the two places where
  the source computes with them have their 32-bit arithmetic written out: the
  constructor's \<^verbatim>\<open>bufs - 1\<close> and the \<^verbatim>\<open>count++\<close> of \<^verbatim>\<open>allocBuf\<close>.
  \<^verbatim>\<open>clockHand + 1\<close> is below \<^verbatim>\<open>numBufs\<close> before the remainder is taken.
\<close>

type_synonym File = nat
type_synonym PageId = nat
type_synonym FrameId = nat

text \<open>
  Modelled from the spec: \<^verbatim>\<open>Page\<close> is declared outside \<^verbatim>\<open>src/\<close>. Section 6 gives
  it as a fixed-size content plus an accessor for its page number.
\<close>

record Page =
  page_number :: PageId
  content :: nat

text \<open>
  \<^verbatim>\<open>BufDesc\<close> is declared in \<^verbatim>\<open>buffer.h\<close>, outside \<^verbatim>\<open>src/\<close>; its fields are
  the ones \<^verbatim>\<open>buffer.cpp\<close> reads and writes. \<open>file_ptr\<close> is the field
  \<^verbatim>\<open>file\<close>, the \<^verbatim>\<open>File*\<close> of the owner, \<open>None\<close> for the null pointer.
  \<open>pinCnt\<close> counts the holders of the frame (section 3 of the spec); it is compared
  with 0, incremented and, when not 0, decremented, and has no upper bound here.
\<close>

record BufDesc =
  file_ptr :: "File option"
  pageNo :: PageId
  frameNo :: FrameId
  pinCnt :: nat
  dirty :: bool
  valid :: bool
  refbit :: bool

text \<open>
  Modelled from the spec: \<^verbatim>\<open>BufDesc::Set\<close> is declared outside \<^verbatim>\<open>src/\<close>. Section
  4.2: initialise the descriptor with \<open>pinCount = 1\<close>, \<open>referenced = true\<close>,
  \<open>dirty = false\<close>, \<open>owner = file\<close>, \<open>pageNumber = pageNumber\<close>, \<open>valid = true\<close>.
\<close>

definition Set_desc :: "File \<Rightarrow> PageId \<Rightarrow> BufDesc \<Rightarrow> BufDesc" where
  "Set_desc f p d =
     d\<lparr>file_ptr := Some f, pageNo := p, pinCnt := 1, dirty := False, valid := True,
       refbit := True\<rparr>"

text \<open>
  Modelled from the spec: \<^verbatim>\<open>BufDesc::Clear\<close> is declared outside \<^verbatim>\<open>src/\<close>.
  Sections 4.5 and 4.6: reset the descriptor to the unoccupied state
  (\<open>valid = false\<close>, \<open>owner = none\<close>). The spec names no other field, so no other
  field is touched here.
\<close>

definition Clear :: "BufDesc \<Rightarrow> BufDesc" where
  "Clear d = d\<lparr>valid := False, file_ptr := None\<rparr>"

text \<open>
  The file layer (\<^verbatim>\<open>File::readPage\<close>, \<^verbatim>\<open>writePage\<close>, \<^verbatim>\<open>allocatePage\<close>,
  \<^verbatim>\<open>deletePage\<close>) is outside \<^verbatim>\<open>src/\<close>. Every call the buffer manager makes is
  appended to a log, and what the call answers is a parameter: a function of the log so
  far and of the call's arguments. \<open>None\<close> and \<open>False\<close> stand for a call that
  throws.
\<close>

datatype event =
    ReadPage File PageId
  | WritePage File Page
  | AllocatePage File
  | DeletePage File PageId

record FileLayer =
  fl_readPage :: "event list \<Rightarrow> File \<Rightarrow> PageId \<Rightarrow> Page option"
  fl_writePage :: "event list \<Rightarrow> File \<Rightarrow> Page \<Rightarrow> bool"
  fl_allocatePage :: "event list \<Rightarrow> File \<Rightarrow> Page option"
  fl_deletePage :: "event list \<Rightarrow> File \<Rightarrow> PageId \<Rightarrow> bool"

text \<open>
  The exceptions of \<^verbatim>\<open>buffer.cpp\<close>, with the arguments their constructors are given.
  \<open>HashNotFoundException\<close> is the failed lookup, which only \<^verbatim>\<open>disposePage\<close> lets
  travel further than the lookup itself. \<open>FileException\<close> is any exception of the
  file layer. \<open>UndefinedBehaviour\<close> marks the places where the C++ has none
  defined: the signed overflow of the constructor's hash table size, and with it every
  pool too large to be built; \<^verbatim>\<open>% numBufs\<close> with an empty pool; and
  \<^verbatim>\<open>file->writePage\<close> through a null owner.
\<close>

datatype error =
    BufferExceededException
  | PageNotPinnedException File PageId FrameId
  | PagePinnedException File PageId FrameId
  | BadBufferException FrameId bool bool bool
  | HashNotFoundException
  | FileException
  | UndefinedBehaviour

text \<open>
  Modelled from the spec: \<^verbatim>\<open>BufHashTbl\<close> is declared outside \<^verbatim>\<open>src/\<close>. Section 6:
  \<open>insert(key, frameId)\<close>, \<open>lookup(key) -> frameId | NotFound\<close>, \<open>remove(key)\<close>, with
  unique keys; only \<open>lookup\<close> signals \<open>NotFound\<close>. It is a finite map, \<open>lookup\<close>
  is application (\<open>None\<close> is \<^verbatim>\<open>HashNotFoundException\<close>).
\<close>

type_synonym BufHashTbl = "File \<times> PageId \<rightharpoonup> FrameId"

definition hash_insert :: "File \<Rightarrow> PageId \<Rightarrow> FrameId \<Rightarrow> BufHashTbl \<Rightarrow> BufHashTbl" where
  "hash_insert f p fr h = h((f, p) \<mapsto> fr)"

definition hash_remove :: "File \<Rightarrow> PageId \<Rightarrow> BufHashTbl \<Rightarrow> BufHashTbl" where
  "hash_remove f p h = h((f, p) := None)"

text \<open>
  The state of a \<^verbatim>\<open>BufMgr\<close>. \<^verbatim>\<open>numBufs\<close> is set once by the constructor to the
  length of both arrays and never changes: it is the length of \<open>bufDescTable\<close>.
  \<open>io\<close> is the log of the calls made to the file layer, oldest first.
\<close>

record BufMgr =
  bufDescTable :: "BufDesc list"
  bufPool :: "Page list"
  hashTable :: BufHashTbl
  clockHand :: FrameId
  io :: "event list"

definition numBufs :: "BufMgr \<Rightarrow> nat" where
  "numBufs s = length (bufDescTable s)"

text \<open>
  The constructor. \<^verbatim>\<open>new BufDesc[bufs]\<close> builds unoccupied descriptors; the loop
  sets \<open>frameNo\<close> and \<open>valid\<close>. \<^verbatim>\<open>clockHand = bufs - 1\<close> is unsigned 32-bit
  arithmetic. \<open>BufMgr_fields\<close> is the state these statements build.
\<close>

definition BufMgr_fields :: "nat \<Rightarrow> BufMgr" where
  "BufMgr_fields bufs =
     \<lparr>bufDescTable =
        map (\<lambda>i. \<lparr>file_ptr = None, pageNo = 0, frameNo = i, pinCnt = 0, dirty = False,
                  valid = False, refbit = False\<rparr>) [0..<bufs],
      bufPool = replicate bufs \<lparr>page_number = 0, content = 0\<rparr>,
      hashTable = Map.empty,
      clockHand = (bufs + 2 ^ 32 - 1) mod 2 ^ 32,
      io = []\<rparr>"

text \<open>
  \<^verbatim>\<open>int htsize = ((((int) (bufs * 1.2))*2)/2)+1\<close>. The product is a \<^verbatim>\<open>double\<close>; for a
  32-bit \<open>bufs\<close> its truncation to \<^verbatim>\<open>int\<close> is \<open>6 * bufs div 5\<close> (the product is
  either a whole number, which the rounding of the multiplication gives exactly, or at
  least 0.2 away from the next one). Doubling it is signed \<^verbatim>\<open>int\<close> arithmetic, whose
  overflow is undefined: \<open>htsize\<close> is \<open>None\<close> then, which is so from 894784854 frames
  on. The size is otherwise of no consequence: it does not change what the table maps.
\<close>

definition htsize :: "nat \<Rightarrow> nat option" where
  "htsize bufs =
     (let v = 6 * bufs div 5 in
      if 2 ^ 31 \<le> v * 2 then None else Some (v * 2 div 2 + 1))"

text \<open>
  \<^verbatim>\<open>BufMgr::BufMgr(bufs)\<close>: a pool whose hash table size overflows has no defined
  behaviour, so no pool of 894784854 frames or more is ever built.
\<close>

definition BufMgr_init :: "nat \<Rightarrow> error + BufMgr" where
  "BufMgr_init bufs =
     (case htsize bufs of
        None \<Rightarrow> Inl UndefinedBehaviour
      | Some _ \<Rightarrow> Inr (BufMgr_fields bufs))"

definition upd_desc :: "FrameId \<Rightarrow> (BufDesc \<Rightarrow> BufDesc) \<Rightarrow> BufMgr \<Rightarrow> BufMgr" where
  "upd_desc i g s = s\<lparr>bufDescTable := (bufDescTable s)[i := g (bufDescTable s ! i)]\<rparr>"

definition log_io :: "event \<Rightarrow> BufMgr \<Rightarrow> BufMgr" where
  "log_io e s = s\<lparr>io := io s @ [e]\<rparr>"

definition advanceClock :: "BufMgr \<Rightarrow> BufMgr" where
  "advanceClock s = s\<lparr>clockHand := (clockHand s + 1) mod numBufs s\<rparr>"

subsection \<open>The replacement algorithm\<close>

text \<open>
  The \<^verbatim>\<open>while (count <= numBufs)\<close> loop of \<^verbatim>\<open>allocBuf\<close>, one call per test of
  the loop condition. \<^verbatim>\<open>continue\<close> is the recursive call, \<^verbatim>\<open>return\<close> gives the
  frame, leaving the loop throws. A clean victim is returned without touching the hash
  table: the \<^verbatim>\<open>hashTable->remove\<close> of that branch is commented out in the source.

  \<open>count\<close> is the local \<^verbatim>\<open>std::uint32_t count\<close>, and \<^verbatim>\<open>count++\<close> is written with
  its wrap-around. \<open>numBufs\<close> is a \<^verbatim>\<open>std::uint32_t\<close> too, and a pool of
  \<open>2^32 - 1\<close> frames is one the constructor cannot build with defined behaviour: on
  such a pool (where the loop condition could never fail) the result is
  \<open>UndefinedBehaviour\<close>, as it is on the empty pool. \<open>rounds\<close> is not a variable
  of the source: it counts the \<^verbatim>\<open>continue\<close>s. With the result and the state, the
  loop gives the values \<open>count\<close> and \<open>rounds\<close> have when it is left.
\<close>

lemma filter_update_less:
  "h < length xs \<Longrightarrow> P (xs ! h) \<Longrightarrow> \<not> P y \<Longrightarrow>
   length (filter P (xs[h := y])) < length (filter P xs)"
proof (induction xs arbitrary: h)
  case Nil
  then show ?case by simp
next
  case (Cons x xs)
  show ?case
  proof (cases h)
    case 0
    with Cons.prems show ?thesis by (simp add: less_Suc_eq_le)
  next
    case (Suc k)
    with Cons.prems Cons.IH [of k] show ?thesis by simp
  qed
qed

function allocBuf_while ::
  "FileLayer \<Rightarrow> BufMgr \<Rightarrow> nat \<Rightarrow> nat \<Rightarrow> ((error + FrameId) \<times> BufMgr) \<times> nat \<times> nat" where
  "allocBuf_while fl s count rounds =
     (if count \<le> numBufs s then
        if numBufs s = 0 \<or> 2 ^ 32 - 1 \<le> numBufs s then
          ((Inl UndefinedBehaviour, s), count, rounds)
        else
          let s1 = advanceClock s; h = clockHand s1; d = bufDescTable s1 ! h in
          if valid d then
            if refbit d then
              allocBuf_while fl (upd_desc h (\<lambda>d. d\<lparr>refbit := False\<rparr>) s1) count (rounds + 1)
            else if pinCnt d > 0 then
              allocBuf_while fl s1 ((count + 1) mod 2 ^ 32) (rounds + 1)
            else if dirty d then
              (case file_ptr d of
                 None \<Rightarrow> ((Inl UndefinedBehaviour, s1), count, rounds)
               | Some f \<Rightarrow>
                   let s2 = log_io (WritePage f (bufPool s1 ! h)) s1 in
                   if fl_writePage fl (io s1) f (bufPool s1 ! h) then
                     ((Inr h,
                       upd_desc h (\<lambda>d. d\<lparr>dirty := False\<rparr>)
                         (s2\<lparr>hashTable := hash_remove f (pageNo d) (hashTable s2)\<rparr>)),
                      count, rounds)
                   else ((Inl FileException, s2), count, rounds))
            else ((Inr h, s1), count, rounds)
          else ((Inr h, s1), count, rounds)
      else ((Inl BufferExceededException, s), count, rounds))"
  by pat_completeness auto
termination
proof (relation "measure (\<lambda>(fl, s, count, rounds).
         (numBufs s + 1 - count) +
         length (filter (\<lambda>d. valid d \<and> refbit d) (bufDescTable s)))", goal_cases)
  case 1
  show ?case by simp
next
  case (2 fl s count rounds s1 h d)
  then have h: "h < length (bufDescTable s)"
    by (simp add: advanceClock_def numBufs_def)
  have "length (filter (\<lambda>d. valid d \<and> refbit d)
          ((bufDescTable s)[h := (bufDescTable s ! h)\<lparr>refbit := False\<rparr>]))
        < length (filter (\<lambda>d. valid d \<and> refbit d) (bufDescTable s))"
    using 2 h by (intro filter_update_less) (simp_all add: advanceClock_def)
  with 2 show ?case
    by (simp add: upd_desc_def advanceClock_def numBufs_def)
next
  case (3 fl s count rounds s1 h d)
  then have "count + 1 < 2 ^ 32" by simp
  with 3 show ?case by (simp add: advanceClock_def numBufs_def)
qed

declare allocBuf_while.simps [simp del]

text \<open>
  \<open>allocBuf_loop\<close> is the loop without its counters, entered with \<open>count\<close> as it
  stands; \<^verbatim>\<open>allocBuf\<close> enters it with \<^verbatim>\<open>count = 0\<close>.
\<close>

definition allocBuf_loop :: "FileLayer \<Rightarrow> BufMgr \<Rightarrow> nat \<Rightarrow> (error + FrameId) \<times> BufMgr" where
  "allocBuf_loop fl s count = fst (allocBuf_while fl s count 0)"

definition allocBuf :: "FileLayer \<Rightarrow> BufMgr \<Rightarrow> (error + FrameId) \<times> BufMgr" where
  "allocBuf fl s = allocBuf_loop fl s 0"

subsection \<open>The public operations\<close>

text \<open>
  \<^verbatim>\<open>readPage\<close>. The \<^verbatim>\<open>try\<close> block is the hit; the handler of
  \<^verbatim>\<open>HashNotFoundException\<close> is the miss, and what is thrown inside the handler leaves
  the method. The pointer \<^verbatim>\<open>&bufPool[frameNumber]\<close> handed back is the frame number.
\<close>

definition readPage ::
  "FileLayer \<Rightarrow> File \<Rightarrow> PageId \<Rightarrow> BufMgr \<Rightarrow> (error + FrameId) \<times> BufMgr" where
  "readPage fl f p s =
     (case hashTable s (f, p) of
        Some frameNumber \<Rightarrow>
          (Inr frameNumber,
           upd_desc frameNumber (\<lambda>d. d\<lparr>pinCnt := pinCnt d + 1, refbit := True\<rparr>) s)
      | None \<Rightarrow>
          (case allocBuf fl s of
             (Inl e, s1) \<Rightarrow> (Inl e, s1)
           | (Inr frameNumber, s1) \<Rightarrow>
               let s2 = log_io (ReadPage f p) s1 in
               (case fl_readPage fl (io s1) f p of
                  None \<Rightarrow> (Inl FileException, s2)
                | Some pg \<Rightarrow>
                    (Inr frameNumber,
                     upd_desc frameNumber (Set_desc f p)
                       (s2\<lparr>bufPool := (bufPool s2)[frameNumber := pg],
                           hashTable := hash_insert f p frameNumber (hashTable s2)\<rparr>)))))"

text \<open>
  \<^verbatim>\<open>unPinPage\<close>. \<^verbatim>\<open>PageNotPinnedException\<close> is not the exception the handler
  names, so it leaves the method.
\<close>

definition unPinPage ::
  "File \<Rightarrow> PageId \<Rightarrow> bool \<Rightarrow> BufMgr \<Rightarrow> (error + unit) \<times> BufMgr" where
  "unPinPage f p markDirty s =
     (case hashTable s (f, p) of
        None \<Rightarrow> (Inr (), s)
      | Some fr \<Rightarrow>
          if pinCnt (bufDescTable s ! fr) = 0 then (Inl (PageNotPinnedException f p fr), s)
          else
            let s1 = upd_desc fr (\<lambda>d. d\<lparr>pinCnt := pinCnt d - 1\<rparr>) s in
            (Inr (), if markDirty then upd_desc fr (\<lambda>d. d\<lparr>dirty := True\<rparr>) s1 else s1))"

text \<open>\<^verbatim>\<open>allocPage\<close> returns the new page's number and the frame that holds it.\<close>

definition allocPage ::
  "FileLayer \<Rightarrow> File \<Rightarrow> BufMgr \<Rightarrow> (error + PageId \<times> FrameId) \<times> BufMgr" where
  "allocPage fl f s =
     (let s0 = log_io (AllocatePage f) s in
      case fl_allocatePage fl (io s) f of
        None \<Rightarrow> (Inl FileException, s0)
      | Some p \<Rightarrow>
          (case allocBuf fl s0 of
             (Inl e, s1) \<Rightarrow> (Inl e, s1)
           | (Inr fr, s1) \<Rightarrow>
               (Inr (page_number p, fr),
                upd_desc fr (Set_desc f (page_number p))
                  (s1\<lparr>bufPool := (bufPool s1)[fr := p],
                      hashTable := hash_insert f (page_number p) fr (hashTable s1)\<rparr>))))"

text \<open>
  \<^verbatim>\<open>flushFile\<close>: the \<^verbatim>\<open>for\<close> loop over the frames \<open>0 .. numBufs - 1\<close>, by recursion
  on the list of the frames still to visit. \<^verbatim>\<open>BufDesc frame = bufDescTable[i]\<close>
  declares a copy of the descriptor: \<^verbatim>\<open>frame.dirty = false\<close> and
  \<^verbatim>\<open>frame.Clear()\<close> change the local \<open>frame\<close>, which dies at the end of the
  iteration, and \<open>bufDescTable\<close> keeps what it held. Only the write and the removal
  from the hash table reach the state.
\<close>

fun flushFile_frames ::
  "FileLayer \<Rightarrow> File \<Rightarrow> FrameId list \<Rightarrow> BufMgr \<Rightarrow> (error + unit) \<times> BufMgr" where
  "flushFile_frames fl f [] s = (Inr (), s)"
| "flushFile_frames fl f (i # rest) s =
     (let frame = bufDescTable s ! i in
      if \<not> valid frame then
        (Inl (BadBufferException (frameNo frame) (dirty frame) (valid frame) (refbit frame)), s)
      else if file_ptr frame = Some f then
        if pinCnt frame \<noteq> 0 then
          (Inl (PagePinnedException f (pageNo frame) (frameNo frame)), s)
        else if dirty frame then
          (let s1 = log_io (WritePage f (bufPool s ! i)) s in
           if fl_writePage fl (io s) f (bufPool s ! i) then
             (let frame1 = frame\<lparr>dirty := False\<rparr>;
                  s2 = s1\<lparr>hashTable := hash_remove f (pageNo frame1) (hashTable s1)\<rparr>;
                  frame2 = Clear frame1
              in flushFile_frames fl f rest s2)
           else (Inl FileException, s1))
        else
          (let s2 = s\<lparr>hashTable := hash_remove f (pageNo frame) (hashTable s)\<rparr>;
               frame2 = Clear frame
           in flushFile_frames fl f rest s2)
      else flushFile_frames fl f rest s)"

definition flushFile :: "FileLayer \<Rightarrow> File \<Rightarrow> BufMgr \<Rightarrow> (error + unit) \<times> BufMgr" where
  "flushFile fl f s = flushFile_frames fl f [0..<numBufs s] s"

text \<open>
  \<^verbatim>\<open>disposePage\<close>: \<open>disposePage_try\<close> is the \<^verbatim>\<open>try\<close> block, where a failed lookup
  throws before anything else runs, and \<open>disposePage\<close> puts the \<^verbatim>\<open>catch (...)\<close>
  around it, which swallows every exception and keeps the state the block had reached.
\<close>

definition disposePage_try ::
  "FileLayer \<Rightarrow> File \<Rightarrow> PageId \<Rightarrow> BufMgr \<Rightarrow> (error + unit) \<times> BufMgr" where
  "disposePage_try fl f p s =
     (case hashTable s (f, p) of
        None \<Rightarrow> (Inl HashNotFoundException, s)
      | Some fr \<Rightarrow>
          let s1 = s\<lparr>hashTable := hash_remove f p (hashTable s)\<rparr>;
              s2 = upd_desc fr Clear s1;
              s3 = log_io (DeletePage f p) s2
          in if fl_deletePage fl (io s2) f p then (Inr (), s3) else (Inl FileException, s3))"

definition disposePage ::
  "FileLayer \<Rightarrow> File \<Rightarrow> PageId \<Rightarrow> BufMgr \<Rightarrow> (error + unit) \<times> BufMgr" where
  "disposePage fl f p s = (Inr (), snd (disposePage_try fl f p s))"

text \<open>A file layer in which every call succeeds; a read gives a page of content 0.\<close>

definition allOK :: FileLayer where
  "allOK =
     \<lparr>fl_readPage = (\<lambda>_ _ p. Some \<lparr>page_number = p, content = 0\<rparr>),
      fl_writePage = (\<lambda>_ _ _. True),
      fl_allocatePage = (\<lambda>log _. Some \<lparr>page_number = length log, content = 0\<rparr>),
      fl_deletePage = (\<lambda>_ _ _. True)\<rparr>"

text \<open>
  The scan changes reference bits on its way; \<open>norm_ref\<close> forgets them, so that the
  descriptors before and after a scan can be compared.
\<close>

definition norm_ref :: "BufDesc \<Rightarrow> BufDesc" where
  "norm_ref d = d\<lparr>refbit := False\<rparr>"

text \<open>The number of \<^verbatim>\<open>File::readPage\<close> calls in a log.\<close>

definition file_reads :: "event list \<Rightarrow> nat" where
  "file_reads log = length (filter (\<lambda>e. case e of ReadPage _ _ \<Rightarrow> True | _ \<Rightarrow> False) log)"

text \<open>
  A run of \<open>readPage\<close> calls, one per (file, page) of the list, whatever each call
  returns; and the shape of the pool after the first \<open>k\<close> of \<open>N\<close> frames have
  been filled by such a run from the constructor: the first \<open>k\<close> frames valid and
  pinned, the others invalid, the clock hand on the frame filled last, and the hash table
  defined on exactly the pages \<open>qs\<close> read so far.
\<close>

fun fetch_all :: "FileLayer \<Rightarrow> (File \<times> PageId) list \<Rightarrow> BufMgr \<Rightarrow> BufMgr" where
  "fetch_all fl [] s = s"
| "fetch_all fl ((f, p) # rest) s = fetch_all fl rest (snd (readPage fl f p s))"

definition filled :: "nat \<Rightarrow> nat \<Rightarrow> (File \<times> PageId) list \<Rightarrow> BufMgr \<Rightarrow> bool" where
  "filled k N qs s \<longleftrightarrow>
     length (bufDescTable s) = N \<and>
     (\<forall>i<k. valid (bufDescTable s ! i) \<and> 0 < pinCnt (bufDescTable s ! i)) \<and>
     (\<forall>i. k \<le> i \<and> i < N \<longrightarrow> \<not> valid (bufDescTable s ! i)) \<and>
     clockHand s = (if k = 0 then N - 1 else k - 1) \<and>
     (\<forall>q. hashTable s q = None \<longleftrightarrow> q \<notin> set qs)"

subsection \<open>Example pools\<close>

text \<open>
  Pools reached from the constructor (\<open>BufMgr_init 1\<close> and \<open>BufMgr_init 2\<close> build
  \<open>BufMgr_fields 1\<close> and \<open>BufMgr_fields 2\<close>), used to run the operations on
  concrete inputs: a pool of one frame after \<open>readPage\<close> of page 1 of file 1, and the
  same pool after the page has been unpinned.
\<close>

definition fetched1 :: BufMgr where
  "fetched1 = snd (readPage allOK 1 1 (BufMgr_fields 1))"

definition released1 :: "bool \<Rightarrow> BufMgr" where
  "released1 markDirty = snd (unPinPage 1 1 markDirty fetched1)"

text \<open>A pool of two frames after \<open>readPage\<close> of pages 1 and 2 of file 1, both pinned.\<close>

definition fetched2 :: BufMgr where
  "fetched2 = snd (readPage allOK 1 2 (snd (readPage allOK 1 1 (BufMgr_fields 2))))"

text \<open>
  Pools of two frames in which page 1 of file 1 sits in frame 0, dirty and unpinned:
  \<open>one_of_two\<close> with frame 1 never used, \<open>half_pinned2\<close> with page 2 pinned in
  frame 1.
\<close>

definition one_of_two :: BufMgr where
  "one_of_two = snd (unPinPage 1 1 True (snd (readPage allOK 1 1 (BufMgr_fields 2))))"

definition half_pinned2 :: BufMgr where
  "half_pinned2 = snd (unPinPage 1 1 True fetched2)"

text \<open>File layers in which every write, every read, or every deletion, throws.\<close>

definition failing_write :: FileLayer where
  "failing_write = allOK\<lparr>fl_writePage := (\<lambda>_ _ _. False)\<rparr>"

definition failing_read :: FileLayer where
  "failing_read = allOK\<lparr>fl_readPage := (\<lambda>_ _ _. None)\<rparr>"

definition failing_delete :: FileLayer where
  "failing_delete = allOK\<lparr>fl_deletePage := (\<lambda>_ _ _. False)\<rparr>"

section \<open>Properties\<close>

subsection \<open>The loop without its counters\<close>

text \<open>
  The counter \<open>rounds\<close> has no part in what the loop returns, so \<open>allocBuf_loop\<close>
  unfolds and is inducted on as the loop of the source.
\<close>

lemma allocBuf_while_rounds:
  "fst (allocBuf_while fl s count r) = fst (allocBuf_while fl s count r')"
proof (induction fl s count r arbitrary: r' rule: allocBuf_while.induct)
  case (1 fl s count rounds)
  define s1 where "s1 = advanceClock s"
  define h where "h = clockHand s1"
  define d where "d = bufDescTable s1 ! h"
  note defs = s1_def h_def d_def
  show ?case
  proof (cases "count \<le> numBufs s \<and> \<not> (numBufs s = 0 \<or> 2 ^ 32 - 1 \<le> numBufs s)")
    case False
    then show ?thesis
      by (auto simp: allocBuf_while.simps [of fl s count rounds]
            allocBuf_while.simps [of fl s count r'])
  next
    case True
    then have c: "count \<le> numBufs s" and n: "\<not> (numBufs s = 0 \<or> 2 ^ 32 - 1 \<le> numBufs s)"
      by blast+
    show ?thesis
    proof (cases "valid d \<and> refbit d")
      case True
      then have v: "valid d" and r: "refbit d" by blast+
      from "1.IH"(1) [OF c n s1_def h_def d_def v r, of "r' + 1"] c n v r
      show ?thesis
        by (simp add: allocBuf_while.simps [of fl s count rounds]
              allocBuf_while.simps [of fl s count r'] Let_def defs del: One_nat_def)
    next
      case nr: False
      show ?thesis
      proof (cases "valid d \<and> 0 < pinCnt d")
        case True
        with nr have v: "valid d" and r: "\<not> refbit d" and pin: "0 < pinCnt d" by blast+
        from "1.IH"(2) [OF c n s1_def h_def d_def v r pin, of "r' + 1"] c n v r pin
        show ?thesis
          by (simp add: allocBuf_while.simps [of fl s count rounds]
                allocBuf_while.simps [of fl s count r'] Let_def defs del: One_nat_def)
      next
        case False
        with nr c n show ?thesis
          by (auto simp: allocBuf_while.simps [of fl s count rounds]
                allocBuf_while.simps [of fl s count r'] Let_def defs split: option.splits)
      qed
    qed
  qed
qed

lemma allocBuf_loop_simps:
  "allocBuf_loop fl s count =
     (if count \<le> numBufs s then
        if numBufs s = 0 \<or> 2 ^ 32 - 1 \<le> numBufs s then (Inl UndefinedBehaviour, s)
        else
          let s1 = advanceClock s; h = clockHand s1; d = bufDescTable s1 ! h in
          if valid d then
            if refbit d then
              allocBuf_loop fl (upd_desc h (\<lambda>d. d\<lparr>refbit := False\<rparr>) s1) count
            else if pinCnt d > 0 then allocBuf_loop fl s1 ((count + 1) mod 2 ^ 32)
            else if dirty d then
              (case file_ptr d of
                 None \<Rightarrow> (Inl UndefinedBehaviour, s1)
               | Some f \<Rightarrow>
                   let s2 = log_io (WritePage f (bufPool s1 ! h)) s1 in
                   if fl_writePage fl (io s1) f (bufPool s1 ! h) then
                     (Inr h,
                      upd_desc h (\<lambda>d. d\<lparr>dirty := False\<rparr>)
                        (s2\<lparr>hashTable := hash_remove f (pageNo d) (hashTable s2)\<rparr>))
                   else (Inl FileException, s2))
            else (Inr h, s1)
          else (Inr h, s1)
      else (Inl BufferExceededException, s))"
  unfolding allocBuf_loop_def allocBuf_while.simps [of fl s count 0]
  by (simp add: Let_def allocBuf_while_rounds [of _ _ _ "Suc 0" 0] split: option.splits)

lemma allocBuf_loop_induct:
  fixes P :: "FileLayer \<Rightarrow> BufMgr \<Rightarrow> nat \<Rightarrow> bool"
  assumes "\<And>fl s count.
     (\<And>s1 h d. count \<le> numBufs s \<Longrightarrow> \<not> (numBufs s = 0 \<or> 2 ^ 32 - 1 \<le> numBufs s) \<Longrightarrow>
        s1 = advanceClock s \<Longrightarrow> h = clockHand s1 \<Longrightarrow> d = bufDescTable s1 ! h \<Longrightarrow>
        valid d \<Longrightarrow> refbit d \<Longrightarrow>
        P fl (upd_desc h (\<lambda>d. d\<lparr>refbit := False\<rparr>) s1) count) \<Longrightarrow>
     (\<And>s1 h d. count \<le> numBufs s \<Longrightarrow> \<not> (numBufs s = 0 \<or> 2 ^ 32 - 1 \<le> numBufs s) \<Longrightarrow>
        s1 = advanceClock s \<Longrightarrow> h = clockHand s1 \<Longrightarrow> d = bufDescTable s1 ! h \<Longrightarrow>
        valid d \<Longrightarrow> \<not> refbit d \<Longrightarrow> 0 < pinCnt d \<Longrightarrow>
        P fl s1 ((count + 1) mod 2 ^ 32)) \<Longrightarrow>
     P fl s count"
  shows "P fl s count"
  by (rule allocBuf_while.induct [of "\<lambda>fl s count rounds. P fl s count" fl s count 0])
     (rule assms, blast+)

subsection \<open>The constructor\<close>

lemma htsize_Some: "bufs < 894784854 \<Longrightarrow> htsize bufs \<noteq> None"
  by (simp add: htsize_def Let_def)

lemma htsize_None: "894784854 \<le> bufs \<Longrightarrow> htsize bufs = None"
  by (simp add: htsize_def Let_def)

lemma BufMgr_init_Inr:
  "BufMgr_init bufs = Inr s \<longleftrightarrow> bufs < 894784854 \<and> s = BufMgr_fields bufs"
proof (cases "bufs < 894784854")
  case True
  with htsize_Some [of bufs] show ?thesis by (auto simp: BufMgr_init_def)
next
  case False
  with htsize_None [of bufs] show ?thesis by (simp add: BufMgr_init_def)
qed

subsection \<open>Evaluation on the example pools, and the frame update\<close>

lemmas eval_defs =
  readPage_def unPinPage_def allocPage_def flushFile_def disposePage_def disposePage_try_def
  allocBuf_def BufMgr_fields_def numBufs_def advanceClock_def log_io_def upd_desc_def
  Set_desc_def Clear_def hash_insert_def hash_remove_def allOK_def Let_def

lemma fetched1_eq:
  "fetched1 =
     \<lparr>bufDescTable = [\<lparr>file_ptr = Some 1, pageNo = 1, frameNo = 0, pinCnt = 1, dirty = False,
                       valid = True, refbit = True\<rparr>],
      bufPool = [\<lparr>page_number = 1, content = 0\<rparr>],
      hashTable = [(1, 1) \<mapsto> 0],
      clockHand = 0,
      io = [ReadPage 1 1]\<rparr>"
  by (simp add: fetched1_def eval_defs allocBuf_loop_simps)

lemma released1_eq:
  "released1 markDirty =
     \<lparr>bufDescTable = [\<lparr>file_ptr = Some 1, pageNo = 1, frameNo = 0, pinCnt = 0,
                       dirty = markDirty, valid = True, refbit = True\<rparr>],
      bufPool = [\<lparr>page_number = 1, content = 0\<rparr>],
      hashTable = [(1, 1) \<mapsto> 0],
      clockHand = 0,
      io = [ReadPage 1 1]\<rparr>"
  by (simp add: released1_def fetched1_eq eval_defs)

lemma init2_eq:
  "BufMgr_fields 2 =
     \<lparr>bufDescTable = [\<lparr>file_ptr = None, pageNo = 0, frameNo = 0, pinCnt = 0, dirty = False,
                       valid = False, refbit = False\<rparr>,
                      \<lparr>file_ptr = None, pageNo = 0, frameNo = 1, pinCnt = 0, dirty = False,
                       valid = False, refbit = False\<rparr>],
      bufPool = [\<lparr>page_number = 0, content = 0\<rparr>, \<lparr>page_number = 0, content = 0\<rparr>],
      hashTable = Map.empty,
      clockHand = 1,
      io = []\<rparr>"
proof -
  have "[0..<2::nat] = [0, 1]" by (simp add: upt_rec numeral_2_eq_2)
  moreover have "replicate 2 \<lparr>page_number = 0, content = 0\<rparr> =
      [\<lparr>page_number = 0, content = 0\<rparr>, \<lparr>page_number = 0, content = 0\<rparr>]"
    by (simp add: numeral_2_eq_2)
  ultimately show ?thesis by (simp add: BufMgr_fields_def)
qed

lemma fetched2_eq:
  "fetched2 =
     \<lparr>bufDescTable = [\<lparr>file_ptr = Some 1, pageNo = 1, frameNo = 0, pinCnt = 1, dirty = False,
                       valid = True, refbit = True\<rparr>,
                      \<lparr>file_ptr = Some 1, pageNo = 2, frameNo = 1, pinCnt = 1, dirty = False,
                       valid = True, refbit = True\<rparr>],
      bufPool = [\<lparr>page_number = 1, content = 0\<rparr>, \<lparr>page_number = 2, content = 0\<rparr>],
      hashTable = [(1, 1) \<mapsto> 0, (1, 2) \<mapsto> 1],
      clockHand = 1,
      io = [ReadPage 1 1, ReadPage 1 2]\<rparr>"
  unfolding fetched2_def init2_eq
  by (simp add: readPage_def allocBuf_def numBufs_def advanceClock_def log_io_def upd_desc_def
        Set_desc_def hash_insert_def allOK_def Let_def allocBuf_loop_simps)

lemma one_of_two_eq:
  "one_of_two =
     \<lparr>bufDescTable = [\<lparr>file_ptr = Some 1, pageNo = 1, frameNo = 0, pinCnt = 0, dirty = True,
                       valid = True, refbit = True\<rparr>,
                      \<lparr>file_ptr = None, pageNo = 0, frameNo = 1, pinCnt = 0, dirty = False,
                       valid = False, refbit = False\<rparr>],
      bufPool = [\<lparr>page_number = 1, content = 0\<rparr>, \<lparr>page_number = 0, content = 0\<rparr>],
      hashTable = [(1, 1) \<mapsto> 0],
      clockHand = 0,
      io = [ReadPage 1 1]\<rparr>"
  unfolding one_of_two_def init2_eq
  by (simp add: readPage_def unPinPage_def allocBuf_def numBufs_def advanceClock_def log_io_def
        upd_desc_def Set_desc_def hash_insert_def allOK_def Let_def allocBuf_loop_simps)

lemma half_pinned2_eq:
  "half_pinned2 =
     \<lparr>bufDescTable = [\<lparr>file_ptr = Some 1, pageNo = 1, frameNo = 0, pinCnt = 0, dirty = True,
                       valid = True, refbit = True\<rparr>,
                      \<lparr>file_ptr = Some 1, pageNo = 2, frameNo = 1, pinCnt = 1, dirty = False,
                       valid = True, refbit = True\<rparr>],
      bufPool = [\<lparr>page_number = 1, content = 0\<rparr>, \<lparr>page_number = 2, content = 0\<rparr>],
      hashTable = [(1, 1) \<mapsto> 0, (1, 2) \<mapsto> 1],
      clockHand = 1,
      io = [ReadPage 1 1, ReadPage 1 2]\<rparr>"
  unfolding half_pinned2_def fetched2_eq
  by (simp add: unPinPage_def upd_desc_def Let_def)

lemma upd_desc_fields [simp]:
  "bufPool (upd_desc i g s) = bufPool s"
  "hashTable (upd_desc i g s) = hashTable s"
  "clockHand (upd_desc i g s) = clockHand s"
  "io (upd_desc i g s) = io s"
  "numBufs (upd_desc i g s) = numBufs s"
  "length (bufDescTable (upd_desc i g s)) = length (bufDescTable s)"
  by (simp_all add: upd_desc_def numBufs_def)

lemma nth_upd_desc:
  "i < length (bufDescTable s) \<Longrightarrow>
   bufDescTable (upd_desc j g s) ! i =
     (if i = j then g (bufDescTable s ! i) else bufDescTable s ! i)"
  by (simp add: upd_desc_def nth_list_update)

lemma upd_desc_twice:
  "upd_desc i g (upd_desc i h s) = upd_desc i (\<lambda>d. g (h d)) s"
proof (cases "i < length (bufDescTable s)")
  case True
  then show ?thesis by (simp add: upd_desc_def)
next
  case False
  then have "length (bufDescTable s) \<le> i" by simp
  then show ?thesis by (simp add: upd_desc_def list_update_beyond)
qed

subsection \<open>What the replacement algorithm returns\<close>

lemma norm_ref_simps [simp]:
  "norm_ref (d\<lparr>refbit := b\<rparr>) = norm_ref d"
  "valid (norm_ref d) = valid d"
  "dirty (norm_ref d) = dirty d"
  "pinCnt (norm_ref d) = pinCnt d"
  "file_ptr (norm_ref d) = file_ptr d"
  "pageNo (norm_ref d) = pageNo d"
  "frameNo (norm_ref d) = frameNo d"
  by (simp_all add: norm_ref_def)

lemma map_norm_ref_clear:
  "map norm_ref (xs[h := (xs ! h)\<lparr>refbit := False\<rparr>]) = map norm_ref xs"
proof (cases "h < length xs")
  case True
  then have "norm_ref (xs ! h) = map norm_ref xs ! h" by simp
  then show ?thesis by (simp add: map_update del: nth_map)
next
  case False
  then show ?thesis by (simp add: list_update_beyond)
qed

lemma map_norm_ref_nth:
  assumes "map norm_ref xs = map norm_ref ys" "i < length ys"
  shows "norm_ref (xs ! i) = norm_ref (ys ! i)"
proof -
  from assms have len: "length xs = length ys" by (metis length_map)
  have "norm_ref (xs ! i) = map norm_ref xs ! i" using len assms(2) by simp
  also have "\<dots> = map norm_ref ys ! i" by (simp only: assms(1))
  also have "\<dots> = norm_ref (ys ! i)" using assms(2) by simp
  finally show ?thesis .
qed

lemma norm_ref_fields:
  assumes "norm_ref a = norm_ref b"
  shows "valid a = valid b" "dirty a = dirty b" "pinCnt a = pinCnt b"
    "file_ptr a = file_ptr b" "pageNo a = pageNo b" "frameNo a = frameNo b"
  using arg_cong [OF assms, of valid] arg_cong [OF assms, of dirty]
    arg_cong [OF assms, of pinCnt] arg_cong [OF assms, of file_ptr]
    arg_cong [OF assms, of pageNo] arg_cong [OF assms, of frameNo]
  by simp_all

lemma norm_ref_dirty:
  assumes "norm_ref a = norm_ref b"
  shows "norm_ref (a\<lparr>dirty := x\<rparr>) = norm_ref (b\<lparr>dirty := x\<rparr>)"
proof -
  have "norm_ref (a\<lparr>dirty := x\<rparr>) = (norm_ref a)\<lparr>dirty := x\<rparr>"
    by (simp add: norm_ref_def)
  also have "\<dots> = (norm_ref b)\<lparr>dirty := x\<rparr>" by (simp only: assms)
  also have "\<dots> = norm_ref (b\<lparr>dirty := x\<rparr>)" by (simp add: norm_ref_def)
  finally show ?thesis .
qed

lemma allocBuf_loop_Inr:
  "allocBuf_loop fl s count = (Inr fr, s') \<Longrightarrow>
   fr < length (bufDescTable s) \<and> clockHand s' = fr \<and> bufPool s' = bufPool s \<and>
   (if valid (bufDescTable s ! fr) \<and> dirty (bufDescTable s ! fr) then
      pinCnt (bufDescTable s ! fr) = 0 \<and>
      (\<exists>f. file_ptr (bufDescTable s ! fr) = Some f \<and>
           fl_writePage fl (io s) f (bufPool s ! fr) \<and>
           io s' = io s @ [WritePage f (bufPool s ! fr)] \<and>
           hashTable s' = hash_remove f (pageNo (bufDescTable s ! fr)) (hashTable s)) \<and>
      map norm_ref (bufDescTable s') =
        (map norm_ref (bufDescTable s))[fr := norm_ref ((bufDescTable s ! fr)\<lparr>dirty := False\<rparr>)]
    else
      (valid (bufDescTable s ! fr) \<longrightarrow> pinCnt (bufDescTable s ! fr) = 0) \<and>
      io s' = io s \<and> hashTable s' = hashTable s \<and>
      map norm_ref (bufDescTable s') = map norm_ref (bufDescTable s))"
proof (induction fl s count arbitrary: fr s' rule: allocBuf_loop_induct)
  case (1 fl s count)
  define s1 where "s1 = advanceClock s"
  define h where "h = clockHand s1"
  define d where "d = bufDescTable s1 ! h"
  define s1' where "s1' = upd_desc h (\<lambda>d. d\<lparr>refbit := False\<rparr>) s1"
  note defs = s1_def h_def d_def s1'_def
  from "1.prems" have c: "count \<le> numBufs s"
    and g: "\<not> (numBufs s = 0 \<or> 2 ^ 32 - 1 \<le> numBufs s)"
    by (auto simp: allocBuf_loop_simps [of fl s count] split: if_splits)
  from g have n: "numBufs s \<noteq> 0" and big: "\<not> 2 ^ 32 - 1 \<le> numBufs s" by simp_all
  from n have hlt: "h < length (bufDescTable s)"
    by (simp add: defs advanceClock_def numBufs_def)
  have t1: "bufDescTable s1 = bufDescTable s" "bufPool s1 = bufPool s" "io s1 = io s"
    "hashTable s1 = hashTable s"
    by (simp_all add: s1_def advanceClock_def)
  have d: "d = bufDescTable s ! h" by (simp add: d_def t1)
  show ?case
  proof (cases "valid d")
    case False
    with "1.prems" c n big have "fr = h" "s' = s1"
      by (auto simp: allocBuf_loop_simps [of fl s count] Let_def defs)
    with False hlt show ?thesis by (simp add: t1 d h_def)
  next
    case v: True
    show ?thesis
    proof (cases "refbit d")
      case True
      with v "1.prems" c n big have "allocBuf_loop fl s1' count = (Inr fr, s')"
        by (simp add: allocBuf_loop_simps [of fl s count] Let_def defs)
      from "1.IH"(1) [OF c g s1_def h_def d_def v True this [unfolded s1'_def]]
      have ih: "fr < length (bufDescTable s1') \<and> clockHand s' = fr \<and> bufPool s' = bufPool s1' \<and>
   (if valid (bufDescTable s1' ! fr) \<and> dirty (bufDescTable s1' ! fr) then
      pinCnt (bufDescTable s1' ! fr) = 0 \<and>
      (\<exists>f. file_ptr (bufDescTable s1' ! fr) = Some f \<and>
           fl_writePage fl (io s1') f (bufPool s1' ! fr) \<and>
           io s' = io s1' @ [WritePage f (bufPool s1' ! fr)] \<and>
           hashTable s' = hash_remove f (pageNo (bufDescTable s1' ! fr)) (hashTable s1')) \<and>
      map norm_ref (bufDescTable s') =
        (map norm_ref (bufDescTable s1'))[fr := norm_ref ((bufDescTable s1' ! fr)\<lparr>dirty := False\<rparr>)]
    else
      (valid (bufDescTable s1' ! fr) \<longrightarrow> pinCnt (bufDescTable s1' ! fr) = 0) \<and>
      io s' = io s1' \<and> hashTable s' = hashTable s1' \<and>
      map norm_ref (bufDescTable s') = map norm_ref (bufDescTable s1'))"
        unfolding s1'_def .
      have t2: "bufPool s1' = bufPool s" "io s1' = io s" "hashTable s1' = hashTable s"
        "length (bufDescTable s1') = length (bufDescTable s)"
        "map norm_ref (bufDescTable s1') = map norm_ref (bufDescTable s)"
        by (simp_all add: s1'_def upd_desc_def t1 map_norm_ref_clear)
      from ih have frlt: "fr < length (bufDescTable s)" by (simp add: t2)
      from map_norm_ref_nth [OF t2(5) frlt]
      have nn: "norm_ref (bufDescTable s1' ! fr) = norm_ref (bufDescTable s ! fr)" .
      have f: "valid (bufDescTable s1' ! fr) = valid (bufDescTable s ! fr)"
        "dirty (bufDescTable s1' ! fr) = dirty (bufDescTable s ! fr)"
        "pinCnt (bufDescTable s1' ! fr) = pinCnt (bufDescTable s ! fr)"
        "file_ptr (bufDescTable s1' ! fr) = file_ptr (bufDescTable s ! fr)"
        "pageNo (bufDescTable s1' ! fr) = pageNo (bufDescTable s ! fr)"
        using norm_ref_fields [OF nn] by simp_all
      have g: "norm_ref ((bufDescTable s1' ! fr)\<lparr>dirty := False\<rparr>) =
               norm_ref ((bufDescTable s ! fr)\<lparr>dirty := False\<rparr>)"
        using nn by (rule norm_ref_dirty)
      from ih show ?thesis unfolding f g t2 by simp
    next
      case nr: False
      show ?thesis
      proof (cases "pinCnt d > 0")
        case True
        with v nr "1.prems" c n big have "allocBuf_loop fl s1 ((count + 1) mod 2 ^ 32) = (Inr fr, s')"
          by (simp add: allocBuf_loop_simps [of fl s count] Let_def defs)
        from "1.IH"(2) [OF c g s1_def h_def d_def v nr True this]
        show ?thesis unfolding t1 .
      next
        case unpinned: False
        show ?thesis
        proof (cases "dirty d")
          case False
          with v nr unpinned "1.prems" c n big have "fr = h" "s' = s1"
            by (auto simp: allocBuf_loop_simps [of fl s count] Let_def defs)
          with False unpinned hlt show ?thesis by (simp add: t1 d h_def)
        next
          case True
          with v nr unpinned "1.prems" c n big obtain f where
            f: "file_ptr d = Some f" "fl_writePage fl (io s1) f (bufPool s1 ! h)"
            "fr = h"
            "s' = upd_desc h (\<lambda>d. d\<lparr>dirty := False\<rparr>)
                    ((log_io (WritePage f (bufPool s1 ! h)) s1)
                       \<lparr>hashTable := hash_remove f (pageNo d)
                          (hashTable (log_io (WritePage f (bufPool s1 ! h)) s1))\<rparr>)"
            by (auto simp: allocBuf_loop_simps [of fl s count] Let_def defs
                     split: option.splits if_splits)
          with True v unpinned hlt h_def [symmetric] show ?thesis
            by (simp add: t1 d upd_desc_def log_io_def map_update)
        qed
      qed
    qed
  qed
qed

lemma allocBuf_loop_Inl:
  "allocBuf_loop fl s count = (Inl e, s') \<Longrightarrow>
   hashTable s' = hashTable s \<and> bufPool s' = bufPool s \<and>
   map norm_ref (bufDescTable s') = map norm_ref (bufDescTable s) \<and>
   (if e = FileException then
      \<exists>f. file_ptr (bufDescTable s ! clockHand s') = Some f \<and>
          valid (bufDescTable s ! clockHand s') \<and> dirty (bufDescTable s ! clockHand s') \<and>
          pinCnt (bufDescTable s ! clockHand s') = 0 \<and>
          clockHand s' < length (bufDescTable s) \<and>
          \<not> fl_writePage fl (io s) f (bufPool s ! clockHand s') \<and>
          io s' = io s @ [WritePage f (bufPool s ! clockHand s')]
    else (e = BufferExceededException \<or> e = UndefinedBehaviour) \<and> io s' = io s)"
proof (induction fl s count arbitrary: e s' rule: allocBuf_loop_induct)
  case (1 fl s count)
  define s1 where "s1 = advanceClock s"
  define h where "h = clockHand s1"
  define d where "d = bufDescTable s1 ! h"
  define s1' where "s1' = upd_desc h (\<lambda>d. d\<lparr>refbit := False\<rparr>) s1"
  note defs = s1_def h_def d_def s1'_def
  show ?case
  proof (cases "count \<le> numBufs s \<and> \<not> (numBufs s = 0 \<or> 2 ^ 32 - 1 \<le> numBufs s)")
    case False
    with "1.prems" show ?thesis
      by (auto simp: allocBuf_loop_simps [of fl s count] split: if_splits)
  next
    case True
    then have c: "count \<le> numBufs s"
      and g: "\<not> (numBufs s = 0 \<or> 2 ^ 32 - 1 \<le> numBufs s)" by simp_all
    from g have n: "numBufs s \<noteq> 0" and big: "\<not> 2 ^ 32 - 1 \<le> numBufs s" by simp_all
    from n have hlt: "h < length (bufDescTable s)"
      by (simp add: defs advanceClock_def numBufs_def)
    have t1: "bufDescTable s1 = bufDescTable s" "bufPool s1 = bufPool s" "io s1 = io s"
      "hashTable s1 = hashTable s"
      by (simp_all add: s1_def advanceClock_def)
    have d: "d = bufDescTable s ! h" by (simp add: d_def t1)
    show ?thesis
    proof (cases "valid d")
      case False
      with "1.prems" c n big show ?thesis
        by (simp add: allocBuf_loop_simps [of fl s count] Let_def defs)
    next
      case v: True
      show ?thesis
      proof (cases "refbit d")
        case True
        with v "1.prems" c n big have "allocBuf_loop fl s1' count = (Inl e, s')"
          by (simp add: allocBuf_loop_simps [of fl s count] Let_def defs)
        note ih = "1.IH"(1) [OF c g s1_def h_def d_def v True this [unfolded s1'_def],
            folded s1'_def]
        have t2: "bufPool s1' = bufPool s" "io s1' = io s" "hashTable s1' = hashTable s"
          "length (bufDescTable s1') = length (bufDescTable s)"
          "map norm_ref (bufDescTable s1') = map norm_ref (bufDescTable s)"
          by (simp_all add: s1'_def upd_desc_def t1 map_norm_ref_clear)
        show ?thesis
        proof (cases "e = FileException")
          case False
          with ih show ?thesis by (simp add: t2)
        next
          case fe: True
          with ih obtain f where
            f: "file_ptr (bufDescTable s1' ! clockHand s') = Some f"
            "valid (bufDescTable s1' ! clockHand s')"
            "dirty (bufDescTable s1' ! clockHand s')"
            "pinCnt (bufDescTable s1' ! clockHand s') = 0"
            "clockHand s' < length (bufDescTable s1')"
            "\<not> fl_writePage fl (io s1') f (bufPool s1' ! clockHand s')"
            "io s' = io s1' @ [WritePage f (bufPool s1' ! clockHand s')]"
            by auto
          from f(5) have lt: "clockHand s' < length (bufDescTable s)" by (simp add: t2)
          note nf = norm_ref_fields [OF map_norm_ref_nth [OF t2(5) lt]]
          from f lt ih fe show ?thesis by (simp add: t2 nf)
        qed
      next
        case nr: False
        show ?thesis
        proof (cases "pinCnt d > 0")
          case True
          with v nr "1.prems" c n big have "allocBuf_loop fl s1 ((count + 1) mod 2 ^ 32) = (Inl e, s')"
            by (simp add: allocBuf_loop_simps [of fl s count] Let_def defs)
          from "1.IH"(2) [OF c g s1_def h_def d_def v nr True this]
          show ?thesis unfolding t1 .
        next
          case unpinned: False
          with v nr "1.prems" c n big obtain f where
            f: "dirty d" "file_ptr d = Some f \<and> \<not> fl_writePage fl (io s1) f (bufPool s1 ! h) \<and>
                e = FileException \<and> s' = log_io (WritePage f (bufPool s1 ! h)) s1
              \<or> file_ptr d = None \<and> e = UndefinedBehaviour \<and> s' = s1"
            by (auto simp: allocBuf_loop_simps [of fl s count] Let_def defs
                     split: option.splits if_splits)
          with v unpinned hlt h_def [symmetric] show ?thesis
            by (auto simp: t1 d log_io_def)
        qed
      qed
    qed
  qed
qed

lemma allocBuf_loop_length:
  "allocBuf_loop fl s count = (r, s') \<Longrightarrow> length (bufDescTable s') = length (bufDescTable s)"
proof (cases r)
  case (Inl e)
  assume "allocBuf_loop fl s count = (r, s')"
  with Inl have "map norm_ref (bufDescTable s') = map norm_ref (bufDescTable s)"
    using allocBuf_loop_Inl [of fl s count e s'] by simp
  then show ?thesis by (metis length_map)
next
  case (Inr fr)
  assume "allocBuf_loop fl s count = (r, s')"
  with Inr have "map norm_ref (bufDescTable s') = map norm_ref (bufDescTable s) \<or>
     map norm_ref (bufDescTable s') =
        (map norm_ref (bufDescTable s))[fr := norm_ref ((bufDescTable s ! fr)\<lparr>dirty := False\<rparr>)]"
    using allocBuf_loop_Inr [of fl s count fr s'] by (simp split: if_splits)
  then show ?thesis by (metis length_map length_list_update)
qed

lemma allocBuf_Inr_desc:
  assumes "allocBuf_loop fl s count = (Inr fr, s')"
  shows "valid (bufDescTable s' ! fr) = valid (bufDescTable s ! fr)"
    "pinCnt (bufDescTable s' ! fr) = pinCnt (bufDescTable s ! fr)"
    "file_ptr (bufDescTable s' ! fr) = file_ptr (bufDescTable s ! fr)"
    "pageNo (bufDescTable s' ! fr) = pageNo (bufDescTable s ! fr)"
    "frameNo (bufDescTable s' ! fr) = frameNo (bufDescTable s ! fr)"
    "dirty (bufDescTable s' ! fr) =
       (dirty (bufDescTable s ! fr) \<and> \<not> valid (bufDescTable s ! fr))"
proof -
  note r = allocBuf_loop_Inr [OF assms]
  from r have lt: "fr < length (bufDescTable s)" by simp
  have len: "length (bufDescTable s') = length (bufDescTable s)"
    using assms by (rule allocBuf_loop_length)
  have n: "norm_ref (bufDescTable s' ! fr) =
      (if valid (bufDescTable s ! fr) \<and> dirty (bufDescTable s ! fr)
       then norm_ref ((bufDescTable s ! fr)\<lparr>dirty := False\<rparr>)
       else norm_ref (bufDescTable s ! fr))"
  proof (cases "valid (bufDescTable s ! fr) \<and> dirty (bufDescTable s ! fr)")
    case True
    with r have "map norm_ref (bufDescTable s') =
        (map norm_ref (bufDescTable s))[fr := norm_ref ((bufDescTable s ! fr)\<lparr>dirty := False\<rparr>)]"
      by simp
    then have "map norm_ref (bufDescTable s') ! fr =
        (map norm_ref (bufDescTable s))[fr := norm_ref ((bufDescTable s ! fr)\<lparr>dirty := False\<rparr>)] ! fr"
      by simp
    with lt len True show ?thesis by simp
  next
    case False
    with r have "map norm_ref (bufDescTable s') = map norm_ref (bufDescTable s)"
      by (simp split: if_splits)
    from map_norm_ref_nth [OF this lt] False show ?thesis by auto
  qed
  have a: "valid (bufDescTable s' ! fr) = valid (norm_ref (bufDescTable s' ! fr))"
    "pinCnt (bufDescTable s' ! fr) = pinCnt (norm_ref (bufDescTable s' ! fr))"
    "file_ptr (bufDescTable s' ! fr) = file_ptr (norm_ref (bufDescTable s' ! fr))"
    "pageNo (bufDescTable s' ! fr) = pageNo (norm_ref (bufDescTable s' ! fr))"
    "frameNo (bufDescTable s' ! fr) = frameNo (norm_ref (bufDescTable s' ! fr))"
    "dirty (bufDescTable s' ! fr) = dirty (norm_ref (bufDescTable s' ! fr))"
    by simp_all
  show "valid (bufDescTable s' ! fr) = valid (bufDescTable s ! fr)"
    "pinCnt (bufDescTable s' ! fr) = pinCnt (bufDescTable s ! fr)"
    "file_ptr (bufDescTable s' ! fr) = file_ptr (bufDescTable s ! fr)"
    "pageNo (bufDescTable s' ! fr) = pageNo (bufDescTable s ! fr)"
    "frameNo (bufDescTable s' ! fr) = frameNo (bufDescTable s ! fr)"
    "dirty (bufDescTable s' ! fr) =
       (dirty (bufDescTable s ! fr) \<and> \<not> valid (bufDescTable s ! fr))"
    unfolding a n by auto
qed

lemma allocBuf_released1_dirty:
  "allocBuf allOK (released1 True) =
     (Inr 0,
      \<lparr>bufDescTable = [\<lparr>file_ptr = Some 1, pageNo = 1, frameNo = 0, pinCnt = 0,
                       dirty = False, valid = True, refbit = False\<rparr>],
       bufPool = [\<lparr>page_number = 1, content = 0\<rparr>],
       hashTable = Map.empty,
       clockHand = 0,
       io = [ReadPage 1 1, WritePage 1 \<lparr>page_number = 1, content = 0\<rparr>]\<rparr>)"
  by (simp add: released1_eq eval_defs allocBuf_loop_simps)

lemma allocBuf_released1_clean:
  "allocBuf fl (released1 False) =
     (Inr 0,
      \<lparr>bufDescTable = [\<lparr>file_ptr = Some 1, pageNo = 1, frameNo = 0, pinCnt = 0,
                       dirty = False, valid = True, refbit = False\<rparr>],
       bufPool = [\<lparr>page_number = 1, content = 0\<rparr>],
       hashTable = [(1, 1) \<mapsto> 0],
       clockHand = 0,
       io = [ReadPage 1 1]\<rparr>)"
  by (simp add: released1_eq eval_defs allocBuf_loop_simps)

lemma allocBuf_released1_failing_write:
  "allocBuf failing_write (released1 True) =
     (Inl FileException,
      \<lparr>bufDescTable = [\<lparr>file_ptr = Some 1, pageNo = 1, frameNo = 0, pinCnt = 0,
                       dirty = True, valid = True, refbit = False\<rparr>],
       bufPool = [\<lparr>page_number = 1, content = 0\<rparr>],
       hashTable = [(1, 1) \<mapsto> 0],
       clockHand = 0,
       io = [ReadPage 1 1, WritePage 1 \<lparr>page_number = 1, content = 0\<rparr>]\<rparr>)"
  by (simp add: released1_eq eval_defs allocBuf_loop_simps failing_write_def)

lemma allocBuf_fetched1:
  "allocBuf fl fetched1 =
     (Inl BufferExceededException,
      \<lparr>bufDescTable = [\<lparr>file_ptr = Some 1, pageNo = 1, frameNo = 0, pinCnt = 1,
                       dirty = False, valid = True, refbit = False\<rparr>],
       bufPool = [\<lparr>page_number = 1, content = 0\<rparr>],
       hashTable = [(1, 1) \<mapsto> 0],
       clockHand = 0,
       io = [ReadPage 1 1]\<rparr>)"
  by (simp add: fetched1_eq eval_defs allocBuf_loop_simps)

lemma file_reads_simps [simp]:
  "file_reads [] = 0"
  "file_reads (log @ [ReadPage f p]) = file_reads log + 1"
  "file_reads (log @ [WritePage f pg]) = file_reads log"
  "file_reads (log @ [AllocatePage f]) = file_reads log"
  "file_reads (log @ [DeletePage f p]) = file_reads log"
  by (simp_all add: file_reads_def)

lemma allocBuf_loop_reads:
  "allocBuf_loop fl s count = (r, s') \<Longrightarrow> file_reads (io s') = file_reads (io s)"
proof (cases r)
  case (Inl e)
  assume "allocBuf_loop fl s count = (r, s')"
  with Inl show ?thesis
    using allocBuf_loop_Inl [of fl s count e s'] by (auto split: if_splits)
next
  case (Inr fr)
  assume "allocBuf_loop fl s count = (r, s')"
  with Inr show ?thesis
    using allocBuf_loop_Inr [of fl s count fr s'] by (auto split: if_splits)
qed

subsection \<open>Write-back of the victim\<close>

text \<open>
  C9: when \<open>allocBuf\<close> returns a frame that is valid (an eviction victim), then if
  the frame was dirty the file layer's \<open>writePage\<close> has been called exactly once, for
  the owning file and on the frame's page, the frame is no longer dirty, and the hash
  table has lost the frame's entry; if the frame was clean, no call to the file layer
  has been made. The write comes before the removal: when the write throws, the hash
  table still holds every entry it held and the log ends with that one write.
\<close>

theorem allocBuf_victim_write:
  "(\<forall>fr s'. allocBuf fl s = (Inr fr, s') \<and> valid (bufDescTable s ! fr) \<longrightarrow>
      valid (bufDescTable s' ! fr) \<and>
      (if dirty (bufDescTable s ! fr) then
         \<exists>f. file_ptr (bufDescTable s ! fr) = Some f \<and>
             io s' = io s @ [WritePage f (bufPool s ! fr)] \<and>
             \<not> dirty (bufDescTable s' ! fr) \<and>
             hashTable s' = hash_remove f (pageNo (bufDescTable s ! fr)) (hashTable s)
       else io s' = io s)) \<and>
   (\<forall>s'. allocBuf fl s = (Inl FileException, s') \<longrightarrow>
      hashTable s' = hashTable s \<and>
      (\<exists>f. file_ptr (bufDescTable s ! clockHand s') = Some f \<and>
           dirty (bufDescTable s ! clockHand s') \<and>
           io s' = io s @ [WritePage f (bufPool s ! clockHand s')]))"
proof (intro conjI allI impI)
  fix fr s'
  assume a: "allocBuf fl s = (Inr fr, s') \<and> valid (bufDescTable s ! fr)"
  then have l: "allocBuf_loop fl s 0 = (Inr fr, s')" by (simp add: allocBuf_def)
  from allocBuf_Inr_desc(1) [OF l] a show "valid (bufDescTable s' ! fr)" by simp
  from allocBuf_loop_Inr [OF l] allocBuf_Inr_desc(6) [OF l] a
  show "if dirty (bufDescTable s ! fr) then
         \<exists>f. file_ptr (bufDescTable s ! fr) = Some f \<and>
             io s' = io s @ [WritePage f (bufPool s ! fr)] \<and>
             \<not> dirty (bufDescTable s' ! fr) \<and>
             hashTable s' = hash_remove f (pageNo (bufDescTable s ! fr)) (hashTable s)
       else io s' = io s"
    by auto
next
  fix s'
  assume "allocBuf fl s = (Inl FileException, s')"
  then have l: "allocBuf_loop fl s 0 = (Inl FileException, s')" by (simp add: allocBuf_def)
  from allocBuf_loop_Inl [OF l] show "hashTable s' = hashTable s" by simp
  from allocBuf_loop_Inl [OF l]
  show "\<exists>f. file_ptr (bufDescTable s ! clockHand s') = Some f \<and>
           dirty (bufDescTable s ! clockHand s') \<and>
           io s' = io s @ [WritePage f (bufPool s ! clockHand s')]"
    by auto
qed

theorem allocBuf_victim_write_witness:
  "fst (allocBuf allOK (released1 True)) = Inr 0 \<and>
   valid (bufDescTable (released1 True) ! 0) \<and> dirty (bufDescTable (released1 True) ! 0) \<and>
   io (snd (allocBuf allOK (released1 True))) =
     io (released1 True) @ [WritePage 1 (bufPool (released1 True) ! 0)] \<and>
   \<not> dirty (bufDescTable (snd (allocBuf allOK (released1 True))) ! 0) \<and>
   hashTable (snd (allocBuf allOK (released1 True))) (1, 1) = None \<and>
   fst (allocBuf allOK (released1 False)) = Inr 0 \<and>
   valid (bufDescTable (released1 False) ! 0) \<and> \<not> dirty (bufDescTable (released1 False) ! 0) \<and>
   io (snd (allocBuf allOK (released1 False))) = io (released1 False) \<and>
   fst (allocBuf failing_write (released1 True)) = Inl FileException \<and>
   hashTable (snd (allocBuf failing_write (released1 True))) (1, 1) = Some 0 \<and>
   io (snd (allocBuf failing_write (released1 True))) =
     io (released1 True) @ [WritePage 1 (bufPool (released1 True) ! 0)]"
proof -
  obtain s1 where s1: "allocBuf allOK (released1 True) = (Inr 0, s1)"
    by (simp add: allocBuf_released1_dirty)
  obtain s2 where s2: "allocBuf allOK (released1 False) = (Inr 0, s2)"
    by (simp add: allocBuf_released1_clean)
  obtain s3 where s3: "allocBuf failing_write (released1 True) = (Inl FileException, s3)"
    by (simp add: allocBuf_released1_failing_write)
  have v: "valid (bufDescTable (released1 True) ! 0)" "dirty (bufDescTable (released1 True) ! 0)"
    "file_ptr (bufDescTable (released1 True) ! 0) = Some 1"
    "pageNo (bufDescTable (released1 True) ! 0) = 1"
    "hashTable (released1 True) (1, 1) = Some 0"
    "valid (bufDescTable (released1 False) ! 0)" "\<not> dirty (bufDescTable (released1 False) ! 0)"
    by (simp_all add: released1_eq)
  from allocBuf_victim_write [of allOK "released1 True"] s1 v
  have a: "io s1 = io (released1 True) @ [WritePage 1 (bufPool (released1 True) ! 0)]"
    "\<not> dirty (bufDescTable s1 ! 0)" "hashTable s1 (1, 1) = None"
    by (auto simp: hash_remove_def)
  from allocBuf_victim_write [of allOK "released1 False"] s2 v
  have b: "io s2 = io (released1 False)" by auto
  from allocBuf_victim_write [of failing_write "released1 True"] s3 v
  have c: "hashTable s3 (1, 1) = Some 0" by auto
  have d: "io s3 = io (released1 True) @ [WritePage 1 (bufPool (released1 True) ! 0)]"
    using s3 [unfolded allocBuf_released1_failing_write] by (auto simp: released1_eq)
  from s1 s2 s3 v a b c d show ?thesis by simp
qed

subsection \<open>The hash table entry of a clean victim\<close>

text \<open>
  C1: a frame returned by \<open>allocBuf\<close> should be invalid, or valid and unpinned with
  its dirty content written and its old entry gone from the hash table. The code does not
  remove the entry of a clean victim. In the pool of one frame whose page 1 of file 1 was
  read and unpinned clean, \<open>allocBuf\<close> returns frame 0, valid and unpinned, and the
  hash table still maps \<open>(1, 1)\<close> to frame 0; after \<open>readPage\<close> of page 2 the frame
  holds page 2 and both \<open>(1, 1)\<close> and \<open>(1, 2)\<close> are mapped to it.
\<close>

theorem allocBuf_clean_victim_keeps_entry:
  "fst (allocBuf allOK (released1 False)) = Inr 0 \<and>
   valid (bufDescTable (snd (allocBuf allOK (released1 False))) ! 0) \<and>
   pinCnt (bufDescTable (snd (allocBuf allOK (released1 False))) ! 0) = 0 \<and>
   pageNo (bufDescTable (snd (allocBuf allOK (released1 False))) ! 0) = 1 \<and>
   hashTable (snd (allocBuf allOK (released1 False))) (1, 1) = Some 0 \<and>
   pageNo (bufDescTable (snd (readPage allOK 1 2 (released1 False))) ! 0) = 2 \<and>
   hashTable (snd (readPage allOK 1 2 (released1 False))) (1, 1) = Some 0 \<and>
   hashTable (snd (readPage allOK 1 2 (released1 False))) (1, 2) = Some 0"
proof -
  have "readPage allOK 1 2 (released1 False) =
     (Inr 0,
      \<lparr>bufDescTable = [\<lparr>file_ptr = Some 1, pageNo = 2, frameNo = 0, pinCnt = 1,
                       dirty = False, valid = True, refbit = True\<rparr>],
       bufPool = [\<lparr>page_number = 2, content = 0\<rparr>],
       hashTable = [(1, 1) \<mapsto> 0, (1, 2) \<mapsto> 0],
       clockHand = 0,
       io = [ReadPage 1 1, ReadPage 1 2]\<rparr>)"
    unfolding readPage_def allocBuf_released1_clean
    by (simp add: released1_eq log_io_def upd_desc_def Set_desc_def hash_insert_def allOK_def)
  then show ?thesis by (simp add: allocBuf_released1_clean)
qed

subsection \<open>readPage\<close>

lemma readPage_alloc_fails:
  "hashTable s (f, p) = None \<Longrightarrow> allocBuf fl s = (Inl e, s1) \<Longrightarrow>
   readPage fl f p s = (Inl e, s1)"
  by (simp add: readPage_def)

lemma readPage_read_fails:
  "hashTable s (f, p) = None \<Longrightarrow> allocBuf fl s = (Inr fr, s1) \<Longrightarrow>
   fl_readPage fl (io s1) f p = None \<Longrightarrow>
   readPage fl f p s = (Inl FileException, log_io (ReadPage f p) s1)"
  by (simp add: readPage_def Let_def)

lemma readPage_read_ok:
  "hashTable s (f, p) = None \<Longrightarrow> allocBuf fl s = (Inr fr, s1) \<Longrightarrow>
   fl_readPage fl (io s1) f p = Some pg \<Longrightarrow>
   readPage fl f p s =
     (Inr fr,
      upd_desc fr (Set_desc f p)
        ((log_io (ReadPage f p) s1)
           \<lparr>bufPool := (bufPool (log_io (ReadPage f p) s1))[fr := pg],
            hashTable := hash_insert f p fr (hashTable (log_io (ReadPage f p) s1))\<rparr>))"
  by (simp add: readPage_def Let_def)

lemma allocBuf_Inr_absent:
  assumes "allocBuf_loop fl s count = (Inr fr, s1)" "hashTable s q = None"
  shows "hashTable s1 q = None"
  using allocBuf_loop_Inr [OF assms(1)] assms(2)
  by (auto simp: hash_remove_def split: if_splits)

lemma readPage_miss_Inr:
  assumes m: "hashTable s (f, p) = None" and a: "allocBuf fl s = (Inr fr, s1)"
    and rd: "fl_readPage fl (io s1) f p = Some pg"
  shows "hashTable (snd (readPage fl f p s)) (f, p) = Some fr"
    "bufPool (snd (readPage fl f p s)) = (bufPool s)[fr := pg]"
    "bufDescTable (snd (readPage fl f p s)) ! fr =
       \<lparr>file_ptr = Some f, pageNo = p, frameNo = frameNo (bufDescTable s ! fr),
        pinCnt = 1, dirty = False, valid = True, refbit = True\<rparr>"
proof -
  from a have l: "allocBuf_loop fl s 0 = (Inr fr, s1)" by (simp add: allocBuf_def)
  from allocBuf_loop_Inr [OF l] allocBuf_loop_length [OF l]
  have lt: "fr < length (bufDescTable s1)" and bp: "bufPool s1 = bufPool s" by simp_all
  note r = readPage_read_ok [OF m a rd]
  show "hashTable (snd (readPage fl f p s)) (f, p) = Some fr"
    by (simp add: r hash_insert_def)
  show "bufPool (snd (readPage fl f p s)) = (bufPool s)[fr := pg]"
    by (simp add: r log_io_def upd_desc_def bp)
  have "bufDescTable (snd (readPage fl f p s)) ! fr = Set_desc f p (bufDescTable s1 ! fr)"
    using lt by (simp add: r log_io_def upd_desc_def)
  also have "\<dots> = \<lparr>file_ptr = Some f, pageNo = p, frameNo = frameNo (bufDescTable s1 ! fr),
            pinCnt = 1, dirty = False, valid = True, refbit = True\<rparr>"
    by (simp add: Set_desc_def)
  finally show "bufDescTable (snd (readPage fl f p s)) ! fr =
           \<lparr>file_ptr = Some f, pageNo = p, frameNo = frameNo (bufDescTable s ! fr),
            pinCnt = 1, dirty = False, valid = True, refbit = True\<rparr>"
    by (simp add: allocBuf_Inr_desc(5) [OF l])
qed

text \<open>
  C5, as the code has it. \<open>readPage f p\<close> on a hit (the hash table gives frame
  \<open>fr\<close>) returns \<open>fr\<close>, adds exactly 1 to the frame's \<open>pinCnt\<close>, sets its
  \<open>refbit\<close>, leaves the hash table as it is and calls the file layer not at all.

  On a miss there are three outcomes, and only one of them is the one the claim gives.
  When \<open>allocBuf\<close> fails (no frame can be evicted, the write-back of the victim
  throws, or the pool is empty), \<open>readPage\<close> fails in the same way, in the state
  \<open>allocBuf\<close> left: it has called \<open>File::readPage\<close> not at all, the hash table is
  unchanged, and no descriptor has changed but for reference bits. When \<open>allocBuf\<close>
  returns frame \<open>fr\<close>, \<open>File::readPage\<close> is called exactly once (the log grows by
  that one read after what \<open>allocBuf\<close> logged, which holds no read); if that read
  throws, \<open>readPage\<close> fails with the file layer's exception, \<open>(f, p)\<close> is still
  absent from the hash table and the descriptors and the pool are as \<open>allocBuf\<close> left
  them; if it gives a page, \<open>readPage\<close> returns \<open>fr\<close>, stores the page in the
  frame, maps \<open>(f, p)\<close> to it and leaves the descriptor with \<open>pinCnt = 1\<close>,
  \<open>refbit = true\<close>, \<open>dirty = false\<close>, owner \<open>f\<close>, page number \<open>p\<close> and
  \<open>valid = true\<close>. Conversely, whenever \<open>readPage\<close> returns a frame on a miss it
  has made exactly one read and initialised that frame's descriptor so.
\<close>

theorem readPage_outcomes:
  "(\<forall>fr. hashTable s (f, p) = Some fr \<and> fr < numBufs s \<longrightarrow>
      fst (readPage fl f p s) = Inr fr \<and>
      hashTable (snd (readPage fl f p s)) = hashTable s \<and>
      pinCnt (bufDescTable (snd (readPage fl f p s)) ! fr) = pinCnt (bufDescTable s ! fr) + 1 \<and>
      refbit (bufDescTable (snd (readPage fl f p s)) ! fr) \<and>
      io (snd (readPage fl f p s)) = io s) \<and>
   (hashTable s (f, p) = None \<longrightarrow>
      (\<forall>e s1. allocBuf fl s = (Inl e, s1) \<longrightarrow>
         readPage fl f p s = (Inl e, s1) \<and>
         (e = BufferExceededException \<or> e = FileException \<or> e = UndefinedBehaviour) \<and>
         file_reads (io s1) = file_reads (io s) \<and>
         hashTable s1 = hashTable s \<and>
         map norm_ref (bufDescTable s1) = map norm_ref (bufDescTable s)) \<and>
      (\<forall>fr s1. allocBuf fl s = (Inr fr, s1) \<longrightarrow>
         io (snd (readPage fl f p s)) = io s1 @ [ReadPage f p] \<and>
         file_reads (io (snd (readPage fl f p s))) = file_reads (io s) + 1 \<and>
         (fl_readPage fl (io s1) f p = None \<longrightarrow>
            fst (readPage fl f p s) = Inl FileException \<and>
            hashTable (snd (readPage fl f p s)) (f, p) = None \<and>
            bufDescTable (snd (readPage fl f p s)) = bufDescTable s1 \<and>
            bufPool (snd (readPage fl f p s)) = bufPool s) \<and>
         (\<forall>pg. fl_readPage fl (io s1) f p = Some pg \<longrightarrow>
            fst (readPage fl f p s) = Inr fr \<and>
            hashTable (snd (readPage fl f p s)) (f, p) = Some fr \<and>
            bufPool (snd (readPage fl f p s)) = (bufPool s)[fr := pg] \<and>
            bufDescTable (snd (readPage fl f p s)) ! fr =
              \<lparr>file_ptr = Some f, pageNo = p, frameNo = frameNo (bufDescTable s ! fr),
               pinCnt = 1, dirty = False, valid = True, refbit = True\<rparr>)) \<and>
      (\<forall>fr s'. readPage fl f p s = (Inr fr, s') \<longrightarrow>
         file_reads (io s') = file_reads (io s) + 1 \<and>
         hashTable s' (f, p) = Some fr \<and>
         bufDescTable s' ! fr =
           \<lparr>file_ptr = Some f, pageNo = p, frameNo = frameNo (bufDescTable s ! fr),
            pinCnt = 1, dirty = False, valid = True, refbit = True\<rparr>))"
proof -
  have hit: "fst (readPage fl f p s) = Inr fr \<and>
      hashTable (snd (readPage fl f p s)) = hashTable s \<and>
      pinCnt (bufDescTable (snd (readPage fl f p s)) ! fr) = pinCnt (bufDescTable s ! fr) + 1 \<and>
      refbit (bufDescTable (snd (readPage fl f p s)) ! fr) \<and>
      io (snd (readPage fl f p s)) = io s"
    if h: "hashTable s (f, p) = Some fr \<and> fr < numBufs s" for fr
  proof -
    from h have lt: "fr < length (bufDescTable s)" by (simp add: numBufs_def)
    with h show ?thesis by (simp add: readPage_def nth_upd_desc)
  qed
  have fails: "readPage fl f p s = (Inl e, s1) \<and>
         (e = BufferExceededException \<or> e = FileException \<or> e = UndefinedBehaviour) \<and>
         file_reads (io s1) = file_reads (io s) \<and>
         hashTable s1 = hashTable s \<and>
         map norm_ref (bufDescTable s1) = map norm_ref (bufDescTable s)"
    if m: "hashTable s (f, p) = None" and a: "allocBuf fl s = (Inl e, s1)" for e s1
  proof -
    from a have l: "allocBuf_loop fl s 0 = (Inl e, s1)" by (simp add: allocBuf_def)
    from allocBuf_loop_Inl [OF l]
    have "e = BufferExceededException \<or> e = FileException \<or> e = UndefinedBehaviour"
      "hashTable s1 = hashTable s"
      "map norm_ref (bufDescTable s1) = map norm_ref (bufDescTable s)"
      by (auto split: if_splits)
    with readPage_alloc_fails [OF m a] allocBuf_loop_reads [OF l] show ?thesis by simp
  qed
  have one: "io (snd (readPage fl f p s)) = io s1 @ [ReadPage f p] \<and>
         file_reads (io (snd (readPage fl f p s))) = file_reads (io s) + 1"
    if m: "hashTable s (f, p) = None" and a: "allocBuf fl s = (Inr fr, s1)" for fr s1
  proof -
    from a have l: "allocBuf_loop fl s 0 = (Inr fr, s1)" by (simp add: allocBuf_def)
    from m a have io: "io (snd (readPage fl f p s)) = io s1 @ [ReadPage f p]"
      by (simp add: readPage_def Let_def log_io_def split: option.splits)
    with allocBuf_loop_reads [OF l] show ?thesis by simp
  qed
  have nopage: "fst (readPage fl f p s) = Inl FileException \<and>
            hashTable (snd (readPage fl f p s)) (f, p) = None \<and>
            bufDescTable (snd (readPage fl f p s)) = bufDescTable s1 \<and>
            bufPool (snd (readPage fl f p s)) = bufPool s"
    if m: "hashTable s (f, p) = None" and a: "allocBuf fl s = (Inr fr, s1)"
      and rd: "fl_readPage fl (io s1) f p = None" for fr s1
  proof -
    from a have l: "allocBuf_loop fl s 0 = (Inr fr, s1)" by (simp add: allocBuf_def)
    from allocBuf_loop_Inr [OF l] have bp: "bufPool s1 = bufPool s" by simp
    from allocBuf_Inr_absent [OF l m] bp show ?thesis
      by (simp add: readPage_read_fails [OF m a rd] log_io_def)
  qed
  have page: "fst (readPage fl f p s) = Inr fr \<and>
            hashTable (snd (readPage fl f p s)) (f, p) = Some fr \<and>
            bufPool (snd (readPage fl f p s)) = (bufPool s)[fr := pg] \<and>
            bufDescTable (snd (readPage fl f p s)) ! fr =
              \<lparr>file_ptr = Some f, pageNo = p, frameNo = frameNo (bufDescTable s ! fr),
               pinCnt = 1, dirty = False, valid = True, refbit = True\<rparr>"
    if m: "hashTable s (f, p) = None" and a: "allocBuf fl s = (Inr fr, s1)"
      and rd: "fl_readPage fl (io s1) f p = Some pg" for fr s1 pg
    using readPage_miss_Inr [OF m a rd] by (simp add: readPage_read_ok [OF m a rd])
  have conv: "file_reads (io s') = file_reads (io s) + 1 \<and>
         hashTable s' (f, p) = Some fr \<and>
         bufDescTable s' ! fr =
           \<lparr>file_ptr = Some f, pageNo = p, frameNo = frameNo (bufDescTable s ! fr),
            pinCnt = 1, dirty = False, valid = True, refbit = True\<rparr>"
    if m: "hashTable s (f, p) = None" and r: "readPage fl f p s = (Inr fr, s')" for fr s'
  proof -
    obtain x s1 where a: "allocBuf fl s = (x, s1)" by (cases "allocBuf fl s")
    show ?thesis
    proof (cases x)
      case (Inl e)
      with readPage_alloc_fails [OF m a [unfolded Inl]] r show ?thesis by simp
    next
      case (Inr fr')
      note a' = a [unfolded Inr]
      show ?thesis
      proof (cases "fl_readPage fl (io s1) f p")
        case None
        with readPage_read_fails [OF m a' None] r show ?thesis by simp
      next
        case (Some pg)
        from readPage_read_ok [OF m a' Some] r have e: "fr' = fr" by simp
        have rs: "snd (readPage fl f p s) = s'" by (simp add: r)
        from page [OF m a' Some, THEN conjunct2] one [OF m a', THEN conjunct2]
        show ?thesis unfolding rs e by simp
      qed
    qed
  qed
  from hit fails one nopage page conv show ?thesis by blast
qed

theorem readPage_outcomes_witness:
  "hashTable fetched1 (1, 1) = Some 0 \<and> 0 < numBufs fetched1 \<and>
   fst (readPage allOK 1 1 fetched1) = Inr 0 \<and>
   pinCnt (bufDescTable (snd (readPage allOK 1 1 fetched1)) ! 0) = 2 \<and>
   refbit (bufDescTable (snd (readPage allOK 1 1 fetched1)) ! 0) \<and>
   io (snd (readPage allOK 1 1 fetched1)) = [ReadPage 1 1] \<and>
   hashTable (released1 True) (1, 2) = None \<and>
   fst (allocBuf allOK (released1 True)) = Inr 0 \<and>
   fst (readPage allOK 1 2 (released1 True)) = Inr 0 \<and>
   file_reads (io (released1 True)) = 1 \<and>
   file_reads (io (snd (readPage allOK 1 2 (released1 True)))) = 2 \<and>
   hashTable (snd (readPage allOK 1 2 (released1 True))) (1, 2) = Some 0 \<and>
   bufDescTable (snd (readPage allOK 1 2 (released1 True))) ! 0 =
     \<lparr>file_ptr = Some 1, pageNo = 2, frameNo = 0, pinCnt = 1, dirty = False, valid = True,
      refbit = True\<rparr> \<and>
   hashTable fetched1 (1, 2) = None \<and>
   fst (allocBuf allOK fetched1) = Inl BufferExceededException \<and>
   fst (readPage allOK 1 2 fetched1) = Inl BufferExceededException \<and>
   file_reads (io (snd (readPage allOK 1 2 fetched1))) = file_reads (io fetched1) \<and>
   fst (allocBuf failing_write (released1 True)) = Inl FileException \<and>
   fst (readPage failing_write 1 2 (released1 True)) = Inl FileException \<and>
   file_reads (io (snd (readPage failing_write 1 2 (released1 True)))) =
     file_reads (io (released1 True)) \<and>
   hashTable (released1 False) (1, 2) = None \<and>
   fst (allocBuf failing_read (released1 False)) = Inr 0 \<and>
   fst (readPage failing_read 1 2 (released1 False)) = Inl FileException \<and>
   file_reads (io (snd (readPage failing_read 1 2 (released1 False)))) =
     file_reads (io (released1 False)) + 1 \<and>
   hashTable (snd (readPage failing_read 1 2 (released1 False))) (1, 2) = None \<and>
   pageNo (bufDescTable (snd (readPage failing_read 1 2 (released1 False))) ! 0) = 1"
proof -
  have a: "hashTable fetched1 (1, 1) = Some 0 \<and> 0 < numBufs fetched1"
    and a': "pinCnt (bufDescTable fetched1 ! 0) = 1" "io fetched1 = [ReadPage 1 1]"
    and m1: "hashTable fetched1 (1, 2) = None"
    by (simp_all add: fetched1_eq numBufs_def)
  from readPage_outcomes [of fetched1 1 1 allOK, THEN conjunct1, THEN spec, of 0, THEN mp, OF a] a'
  have b: "fst (readPage allOK 1 1 fetched1) = Inr 0"
    "pinCnt (bufDescTable (snd (readPage allOK 1 1 fetched1)) ! 0) = 2"
    "refbit (bufDescTable (snd (readPage allOK 1 1 fetched1)) ! 0)"
    "io (snd (readPage allOK 1 1 fetched1)) = [ReadPage 1 1]"
    by simp_all
  have c: "hashTable (released1 True) (1, 2) = None"
    and c': "file_reads (io (released1 True)) = 1"
    "frameNo (bufDescTable (released1 True) ! 0) = 0"
    by (simp_all add: released1_eq file_reads_def)
  obtain s1 where s1: "allocBuf allOK (released1 True) = (Inr 0, s1)"
    by (simp add: allocBuf_released1_dirty)
  have rd: "fl_readPage allOK (io s1) 1 2 = Some \<lparr>page_number = 2, content = 0\<rparr>"
    by (simp add: allOK_def)
  note ok = readPage_outcomes [of "released1 True" 1 2 allOK, THEN conjunct2, THEN mp, OF c,
      THEN conjunct2, THEN conjunct1, THEN spec, of 0, THEN spec, of s1, THEN mp, OF s1]
  from ok [THEN conjunct2, THEN conjunct1] c'
  have d1: "file_reads (io (snd (readPage allOK 1 2 (released1 True)))) = 2" by simp
  from ok [THEN conjunct2, THEN conjunct2, THEN conjunct2, THEN spec, THEN mp, OF rd] c'
  have d: "fst (readPage allOK 1 2 (released1 True)) = Inr 0"
    "hashTable (snd (readPage allOK 1 2 (released1 True))) (1, 2) = Some 0"
    "bufDescTable (snd (readPage allOK 1 2 (released1 True))) ! 0 =
     \<lparr>file_ptr = Some 1, pageNo = 2, frameNo = 0, pinCnt = 1, dirty = False, valid = True,
      refbit = True\<rparr>"
    by simp_all
  obtain s2 where s2: "allocBuf allOK fetched1 = (Inl BufferExceededException, s2)"
    by (simp add: allocBuf_fetched1)
  from readPage_outcomes [of fetched1 1 2 allOK, THEN conjunct2, THEN mp, OF m1,
      THEN conjunct1, THEN spec, THEN spec, THEN mp, OF s2]
  have e: "fst (readPage allOK 1 2 fetched1) = Inl BufferExceededException"
    "file_reads (io (snd (readPage allOK 1 2 fetched1))) = file_reads (io fetched1)"
    by simp_all
  obtain s3 where s3: "allocBuf failing_write (released1 True) = (Inl FileException, s3)"
    by (simp add: allocBuf_released1_failing_write)
  from readPage_outcomes [of "released1 True" 1 2 failing_write, THEN conjunct2, THEN mp, OF c,
      THEN conjunct1, THEN spec, THEN spec, THEN mp, OF s3]
  have g: "fst (readPage failing_write 1 2 (released1 True)) = Inl FileException"
    "file_reads (io (snd (readPage failing_write 1 2 (released1 True)))) =
     file_reads (io (released1 True))"
    by simp_all
  have m4: "hashTable (released1 False) (1, 2) = None" by (simp add: released1_eq)
  have s4: "allocBuf failing_read (released1 False) =
     (Inr 0,
      \<lparr>bufDescTable = [\<lparr>file_ptr = Some 1, pageNo = 1, frameNo = 0, pinCnt = 0,
                       dirty = False, valid = True, refbit = False\<rparr>],
       bufPool = [\<lparr>page_number = 1, content = 0\<rparr>],
       hashTable = [(1, 1) \<mapsto> 0],
       clockHand = 0,
       io = [ReadPage 1 1]\<rparr>)"
    by (rule allocBuf_released1_clean)
  have rd4: "fl_readPage failing_read (io \<lparr>bufDescTable = [\<lparr>file_ptr = Some 1, pageNo = 1,
                       frameNo = 0, pinCnt = 0,
                       dirty = False, valid = True, refbit = False\<rparr>],
       bufPool = [\<lparr>page_number = 1, content = 0\<rparr>],
       hashTable = [(1, 1) \<mapsto> 0],
       clockHand = 0,
       io = [ReadPage 1 1]\<rparr>) 1 2 = None"
    by (simp add: failing_read_def)
  note nr = readPage_outcomes [of "released1 False" 1 2 failing_read, THEN conjunct2, THEN mp,
      OF m4, THEN conjunct2, THEN conjunct1, THEN spec, THEN spec, THEN mp, OF s4]
  from nr [THEN conjunct2, THEN conjunct1]
  have k1: "file_reads (io (snd (readPage failing_read 1 2 (released1 False)))) =
     file_reads (io (released1 False)) + 1" .
  from nr [THEN conjunct2, THEN conjunct2, THEN conjunct1, THEN mp, OF rd4]
  have k: "fst (readPage failing_read 1 2 (released1 False)) = Inl FileException"
    "hashTable (snd (readPage failing_read 1 2 (released1 False))) (1, 2) = None"
    "pageNo (bufDescTable (snd (readPage failing_read 1 2 (released1 False))) ! 0) = 1"
    by simp_all
  from a b c c' d1 d s1 m1 s2 e s3 g m4 s4 k1 k show ?thesis by simp
qed

text \<open>
  The claim gives a miss one read and an initialised descriptor in every state of the
  pool. In the pool of one frame whose page 1 of file 1 is pinned, \<open>readPage\<close> of
  page 2 is a miss that throws \<open>BufferExceededException\<close>: the log of the file layer
  is what it was, no read has been made, frame 0 still holds page 1 with its one pin, and
  page 2 is not in the hash table.
\<close>

theorem readPage_miss_without_read:
  "hashTable fetched1 (1, 2) = None \<and>
   fst (readPage allOK 1 2 fetched1) = Inl BufferExceededException \<and>
   io (snd (readPage allOK 1 2 fetched1)) = io fetched1 \<and>
   file_reads (io (snd (readPage allOK 1 2 fetched1))) = file_reads (io fetched1) \<and>
   file_reads (io (snd (readPage allOK 1 2 fetched1))) \<noteq> file_reads (io fetched1) + 1 \<and>
   pageNo (bufDescTable (snd (readPage allOK 1 2 fetched1)) ! 0) = 1 \<and>
   pinCnt (bufDescTable (snd (readPage allOK 1 2 fetched1)) ! 0) = 1 \<and>
   hashTable (snd (readPage allOK 1 2 fetched1)) (1, 2) = None"
proof -
  have m: "hashTable fetched1 (1, 2) = None" by (simp add: fetched1_eq)
  have "readPage allOK 1 2 fetched1 =
     (Inl BufferExceededException,
      \<lparr>bufDescTable = [\<lparr>file_ptr = Some 1, pageNo = 1, frameNo = 0, pinCnt = 1,
                       dirty = False, valid = True, refbit = False\<rparr>],
       bufPool = [\<lparr>page_number = 1, content = 0\<rparr>],
       hashTable = [(1, 1) \<mapsto> 0],
       clockHand = 0,
       io = [ReadPage 1 1]\<rparr>)"
    using m by (simp add: readPage_def allocBuf_fetched1)
  with m show ?thesis by (simp add: fetched1_eq)
qed

subsection \<open>A pool in which every frame is pinned\<close>

lemma list_all_clear_refbit:
  "list_all (\<lambda>d. valid d \<and> 0 < pinCnt d) xs \<Longrightarrow>
   list_all (\<lambda>d. valid d \<and> 0 < pinCnt d) (xs[h := (xs ! h)\<lparr>refbit := False\<rparr>])"
  by (cases "h < length xs") (auto simp: list_all_length nth_list_update list_update_beyond)

lemma allocBuf_while_all_pinned:
  "list_all (\<lambda>d. valid d \<and> 0 < pinCnt d) (bufDescTable s) \<Longrightarrow>
   0 < numBufs s \<Longrightarrow> numBufs s < 2 ^ 32 - 1 \<Longrightarrow> count \<le> numBufs s + 1 \<Longrightarrow>
   fst (fst (allocBuf_while fl s count r)) = Inl BufferExceededException \<and>
   fst (snd (allocBuf_while fl s count r)) = numBufs s + 1 \<and>
   r + (numBufs s + 1 - count) \<le> snd (snd (allocBuf_while fl s count r)) \<and>
   snd (snd (allocBuf_while fl s count r)) \<le>
     r + (numBufs s + 1 - count) + length (filter refbit (bufDescTable s))"
proof (induction fl s count r rule: allocBuf_while.induct)
  case (1 fl s count rounds)
  define s1 where "s1 = advanceClock s"
  define h where "h = clockHand s1"
  define d where "d = bufDescTable s1 ! h"
  note defs = s1_def h_def d_def
  show ?case
  proof (cases "count \<le> numBufs s")
    case False
    then have "allocBuf_while fl s count rounds = ((Inl BufferExceededException, s), count, rounds)"
      by (subst allocBuf_while.simps) simp
    moreover from False "1.prems" have "count = numBufs s + 1" by simp
    ultimately show ?thesis by simp
  next
    case c: True
    from "1.prems" have n: "\<not> (numBufs s = 0 \<or> 2 ^ 32 - 1 \<le> numBufs s)" by simp
    from "1.prems" have hlt: "h < length (bufDescTable s)"
      by (simp add: defs advanceClock_def numBufs_def)
    have t1: "bufDescTable s1 = bufDescTable s" "numBufs s1 = numBufs s"
      by (simp_all add: s1_def advanceClock_def numBufs_def)
    from "1.prems"(1) hlt have v: "valid d" and pin: "0 < pinCnt d"
      by (simp_all add: d_def t1 list_all_length)
    show ?thesis
    proof (cases "refbit d")
      case True
      define s1' where "s1' = upd_desc h (\<lambda>d. d\<lparr>refbit := False\<rparr>) s1"
      have t2: "numBufs s1' = numBufs s"
        "list_all (\<lambda>d. valid d \<and> 0 < pinCnt d) (bufDescTable s1')"
        using list_all_clear_refbit [OF "1.prems"(1), of h]
        by (simp_all add: s1'_def upd_desc_def t1 numBufs_def)
      have less: "length (filter refbit (bufDescTable s1')) <
          length (filter refbit (bufDescTable s))"
        using hlt True by (simp add: s1'_def upd_desc_def t1 d_def filter_update_less)
      have step: "allocBuf_while fl s count rounds = allocBuf_while fl s1' count (rounds + 1)"
        using c n v True
        by (simp add: allocBuf_while.simps [of fl s count rounds] Let_def defs s1'_def)
      from "1.IH"(1) [OF c n s1_def h_def d_def v True, folded s1'_def] t2 "1.prems"
      have "fst (fst (allocBuf_while fl s1' count (rounds + 1))) = Inl BufferExceededException \<and>
        fst (snd (allocBuf_while fl s1' count (rounds + 1))) = numBufs s + 1 \<and>
        rounds + 1 + (numBufs s + 1 - count) \<le>
          snd (snd (allocBuf_while fl s1' count (rounds + 1))) \<and>
        snd (snd (allocBuf_while fl s1' count (rounds + 1))) \<le>
          rounds + 1 + (numBufs s + 1 - count) + length (filter refbit (bufDescTable s1'))"
        by simp
      with less show ?thesis unfolding step by simp
    next
      case False
      from c "1.prems" have cm: "(count + 1) mod 2 ^ 32 = count + 1" by simp
      have step: "allocBuf_while fl s count rounds =
          allocBuf_while fl s1 (count + 1) (rounds + 1)"
        using c n v False pin
        by (simp add: allocBuf_while.simps [of fl s count rounds] Let_def defs cm
              del: One_nat_def)
      from "1.IH"(2) [OF c n s1_def h_def d_def v False pin, unfolded cm] "1.prems" c
      have "fst (fst (allocBuf_while fl s1 (count + 1) (rounds + 1))) =
          Inl BufferExceededException \<and>
        fst (snd (allocBuf_while fl s1 (count + 1) (rounds + 1))) = numBufs s + 1 \<and>
        rounds + 1 + (numBufs s + 1 - (count + 1)) \<le>
          snd (snd (allocBuf_while fl s1 (count + 1) (rounds + 1))) \<and>
        snd (snd (allocBuf_while fl s1 (count + 1) (rounds + 1))) \<le>
          rounds + 1 + (numBufs s + 1 - (count + 1)) + length (filter refbit (bufDescTable s))"
        by (simp add: t1)
      moreover from c have "rounds + 1 + (numBufs s + 1 - (count + 1)) =
          rounds + (numBufs s + 1 - count)" by simp
      ultimately show ?thesis unfolding step by (simp only:)
    qed
  qed
qed

lemma filled_init:
  assumes "0 < N" "N < 2 ^ 32"
  shows "filled 0 N [] (BufMgr_fields N)"
proof -
  have "N + 2 ^ 32 - 1 = (N - 1) + 2 ^ 32" using assms by simp
  then have "(N + 2 ^ 32 - 1) mod 2 ^ 32 = N - 1"
    using assms by (simp only: mod_add_self2) simp
  then show ?thesis by (simp add: filled_def BufMgr_fields_def)
qed

lemma filled_step:
  assumes f: "filled k N qs s" and k: "k < N" and new: "(f, p) \<notin> set qs"
    and rd: "fl_readPage fl (io s) f p \<noteq> None" and big: "N < 2 ^ 32 - 1"
  shows "filled (Suc k) N (qs @ [(f, p)]) (snd (readPage fl f p s))"
proof -
  from f have len: "length (bufDescTable s) = N"
    and inv: "\<not> valid (bufDescTable s ! k)"
    and hand: "clockHand s = (if k = 0 then N - 1 else k - 1)"
    and miss: "hashTable s (f, p) = None"
    using k new by (auto simp: filled_def)
  from hand k have adv: "(clockHand s + 1) mod N = k" by (cases k) auto
  have ab: "allocBuf fl s = (Inr k, advanceClock s)"
    using k len inv adv big
    by (simp add: allocBuf_def allocBuf_loop_simps [of fl s 0] numBufs_def advanceClock_def Let_def)
  from rd obtain pg where pg: "fl_readPage fl (io s) f p = Some pg" by auto
  have r: "snd (readPage fl f p s) =
      upd_desc k (Set_desc f p)
        ((log_io (ReadPage f p) (advanceClock s))
           \<lparr>bufPool := (bufPool s)[k := pg],
             hashTable := hash_insert f p k (hashTable s)\<rparr>)"
    using miss pg by (simp add: readPage_def ab Let_def advanceClock_def log_io_def)
  show ?thesis
    unfolding r using f k adv
    by (auto simp: filled_def upd_desc_def log_io_def advanceClock_def numBufs_def Set_desc_def
          hash_insert_def nth_list_update less_Suc_eq)
qed

lemma fetch_all_fills:
  assumes rd: "\<forall>log f q. fl_readPage fl log f q \<noteq> None" and big: "N < 2 ^ 32 - 1"
  shows "filled k N qs s \<Longrightarrow> k + length ps \<le> N \<Longrightarrow> distinct (qs @ ps) \<Longrightarrow>
         filled (k + length ps) N (qs @ ps) (fetch_all fl ps s)"
proof (induction ps arbitrary: k qs s)
  case Nil
  then show ?case by simp
next
  case (Cons x ps)
  obtain f p where x: "x = (f, p)" by (cases x)
  from Cons.prems have "k < N" "(f, p) \<notin> set qs" by (auto simp: x)
  from filled_step [OF Cons.prems(1) this _ big] rd
  have st: "filled (Suc k) N (qs @ [(f, p)]) (snd (readPage fl f p s))" by simp
  from Cons.prems have "Suc k + length ps \<le> N" "distinct ((qs @ [(f, p)]) @ ps)"
    by (auto simp: x)
  from Cons.IH [OF st this] show ?case by (simp add: x)
qed

lemma filled_full:
  assumes "filled N N qs s"
  shows "list_all (\<lambda>d. valid d \<and> 0 < pinCnt d) (bufDescTable s)"
    "numBufs s = N" "q \<notin> set qs \<Longrightarrow> hashTable s q = None"
proof -
  from assms show "list_all (\<lambda>d. valid d \<and> 0 < pinCnt d) (bufDescTable s)"
    by (simp add: filled_def list_all_length)
  from assms show "numBufs s = N" by (simp add: filled_def numBufs_def)
  from assms have "\<forall>q. hashTable s q = None \<longleftrightarrow> q \<notin> set qs"
    unfolding filled_def by blast
  then show "q \<notin> set qs \<Longrightarrow> hashTable s q = None" by blast
qed

lemma fetch_all_exhausts:
  assumes "0 < N" "N < 2 ^ 32 - 1" "length ps = N" "distinct ((f, p) # ps)"
    "\<forall>log f q. fl_readPage fl log f q \<noteq> None"
  shows "numBufs (fetch_all fl ps (BufMgr_fields N)) = N"
    "list_all (\<lambda>d. valid d \<and> 0 < pinCnt d) (bufDescTable (fetch_all fl ps (BufMgr_fields N)))"
    "hashTable (fetch_all fl ps (BufMgr_fields N)) (f, p) = None"
proof -
  from assms have "filled 0 N [] (BufMgr_fields N)" by (intro filled_init) simp_all
  from fetch_all_fills [OF assms(5) assms(2) this, of ps] assms
  have full: "filled N N ps (fetch_all fl ps (BufMgr_fields N))" by simp
  from filled_full(2) [OF full] show "numBufs (fetch_all fl ps (BufMgr_fields N)) = N" .
  from filled_full(1) [OF full]
  show "list_all (\<lambda>d. valid d \<and> 0 < pinCnt d)
    (bufDescTable (fetch_all fl ps (BufMgr_fields N)))" .
  from assms have "(f, p) \<notin> set ps" by simp
  from filled_full(3) [OF full this]
  show "hashTable (fetch_all fl ps (BufMgr_fields N)) (f, p) = None" .
qed

text \<open>
  C4, as the code has it. In a pool of at least one frame (and of fewer than
  \<open>2^32 - 1\<close>, as every pool the constructor builds) in which every frame is valid and
  pinned, \<open>allocBuf\<close> throws \<open>BufferExceededException\<close>: the scan ends, and it ends
  with the local \<open>count\<close> at \<open>numBufs + 1\<close>, that is after exactly \<open>numBufs + 1\<close>
  skips of a pinned frame, and after at least \<open>numBufs + 1\<close> and at most
  \<open>2 * numBufs + 1\<close> rounds that did not return, the others being the ones that
  cleared a reference bit. \<open>readPage\<close> of a page that is not in the hash table fails with
  the same exception. And a pool of \<open>N\<close> frames that the constructor has built is in that
  state after \<open>N\<close> distinct pages have been read and none unpinned: the read of one
  more distinct page fails with \<open>BufferExceededException\<close>. The bound of the claim, at
  most \<open>numBufs\<close> attempts, is one too small: the loop runs while
  \<^verbatim>\<open>count <= numBufs\<close>.
\<close>

theorem allocBuf_all_pinned:
  "(0 < numBufs s \<and> numBufs s < 2 ^ 32 - 1 \<and>
    list_all (\<lambda>d. valid d \<and> 0 < pinCnt d) (bufDescTable s) \<longrightarrow>
     (\<exists>s' rounds.
        allocBuf_while fl s 0 0 = ((Inl BufferExceededException, s'), numBufs s + 1, rounds) \<and>
        allocBuf fl s = (Inl BufferExceededException, s') \<and>
        numBufs s + 1 \<le> rounds \<and> rounds \<le> 2 * numBufs s + 1) \<and>
     (hashTable s (f, p) = None \<longrightarrow> fst (readPage fl f p s) = Inl BufferExceededException)) \<and>
   (BufMgr_init N = Inr s0 \<and> 0 < N \<and> length ps = N \<and> distinct ((f, p) # ps) \<and>
    (\<forall>log f q. fl_readPage fl log f q \<noteq> None) \<longrightarrow>
     fst (readPage fl f p (fetch_all fl ps s0)) = Inl BufferExceededException)"
proof -
  have scan: "\<exists>s' rounds.
        allocBuf_while fl t 0 0 = ((Inl BufferExceededException, s'), numBufs t + 1, rounds) \<and>
        allocBuf fl t = (Inl BufferExceededException, s') \<and>
        numBufs t + 1 \<le> rounds \<and> rounds \<le> 2 * numBufs t + 1"
    if a: "0 < numBufs t" "numBufs t < 2 ^ 32 - 1"
      "list_all (\<lambda>d. valid d \<and> 0 < pinCnt d) (bufDescTable t)" for t
  proof -
    obtain e s' c rounds where w: "allocBuf_while fl t 0 0 = ((e, s'), c, rounds)"
      by (metis prod.exhaust)
    from allocBuf_while_all_pinned [OF a(3) a(1) a(2), of 0 fl 0]
    have r: "e = Inl BufferExceededException" "c = numBufs t + 1"
      "numBufs t + 1 \<le> rounds"
      "rounds \<le> numBufs t + 1 + length (filter refbit (bufDescTable t))"
      by (simp_all add: w)
    have "length (filter refbit (bufDescTable t)) \<le> numBufs t"
      by (simp add: numBufs_def)
    with r have "rounds \<le> 2 * numBufs t + 1" by simp
    moreover have "allocBuf fl t = (e, s')"
      by (simp add: allocBuf_def allocBuf_loop_def w)
    ultimately show ?thesis using r w by simp
  qed
  have pinned: "fst (readPage fl f p t) = Inl BufferExceededException"
    if a: "0 < numBufs t" "numBufs t < 2 ^ 32 - 1"
      "list_all (\<lambda>d. valid d \<and> 0 < pinCnt d) (bufDescTable t)"
      and m: "hashTable t (f, p) = None" for t
  proof -
    from scan [OF a] obtain s' where "allocBuf fl t = (Inl BufferExceededException, s')"
      by blast
    with m show ?thesis by (simp add: readPage_def)
  qed
  have two: "fst (readPage fl f p (fetch_all fl ps s0)) = Inl BufferExceededException"
    if b: "BufMgr_init N = Inr s0 \<and> 0 < N \<and> length ps = N \<and> distinct ((f, p) # ps) \<and>
      (\<forall>log f q. fl_readPage fl log f q \<noteq> None)"
  proof -
    from b have i: "N < 894784854" "s0 = BufMgr_fields N" by (simp_all add: BufMgr_init_Inr)
    from b i have b': "0 < N" "N < 2 ^ 32 - 1" "length ps = N" "distinct ((f, p) # ps)"
      "\<forall>log f q. fl_readPage fl log f q \<noteq> None"
      by simp_all
    note e = fetch_all_exhausts [OF b']
    from e(1) b' have "0 < numBufs (fetch_all fl ps (BufMgr_fields N))"
      "numBufs (fetch_all fl ps (BufMgr_fields N)) < 2 ^ 32 - 1" by simp_all
    from pinned [OF this e(2) e(3)] show ?thesis by (simp add: i)
  qed
  from scan [of s] pinned [of s] two show ?thesis by blast
qed

theorem allocBuf_all_pinned_witness:
  "0 < numBufs fetched2 \<and> numBufs fetched2 < 2 ^ 32 - 1 \<and>
   list_all (\<lambda>d. valid d \<and> 0 < pinCnt d) (bufDescTable fetched2) \<and>
   hashTable fetched2 (1, 3) = None \<and>
   fst (allocBuf allOK fetched2) = Inl BufferExceededException \<and>
   fst (snd (allocBuf_while allOK fetched2 0 0)) = 3 \<and>
   3 \<le> snd (snd (allocBuf_while allOK fetched2 0 0)) \<and>
   snd (snd (allocBuf_while allOK fetched2 0 0)) \<le> 5 \<and>
   fst (readPage allOK 1 3 fetched2) = Inl BufferExceededException \<and>
   BufMgr_init 2 = Inr (BufMgr_fields 2) \<and>
   distinct [(1, 3), (1, 1), (1, 2 :: nat)] \<and>
   fst (readPage allOK 1 3 (fetch_all allOK [(1, 1), (1, 2)] (BufMgr_fields 2))) =
     Inl BufferExceededException"
proof -
  have a: "0 < numBufs fetched2 \<and> numBufs fetched2 < 2 ^ 32 - 1 \<and>
    list_all (\<lambda>d. valid d \<and> 0 < pinCnt d) (bufDescTable fetched2)"
    and m: "hashTable fetched2 (1, 3) = None" and n: "numBufs fetched2 = 2"
    by (simp_all add: fetched2_eq numBufs_def)
  note t = allocBuf_all_pinned [of fetched2 allOK 1 3 2 "BufMgr_fields 2" "[(1, 1), (1, 2)]"]
  from t [THEN conjunct1, THEN mp, OF a, THEN conjunct1] n
  obtain s' rounds where
    w: "allocBuf_while allOK fetched2 0 0 = ((Inl BufferExceededException, s'), 3, rounds)"
    and ab: "allocBuf allOK fetched2 = (Inl BufferExceededException, s')"
    and r: "3 \<le> rounds" "rounds \<le> 5"
    by auto
  from t [THEN conjunct1, THEN mp, OF a, THEN conjunct2, THEN mp, OF m]
  have rp: "fst (readPage allOK 1 3 fetched2) = Inl BufferExceededException" .
  have i: "BufMgr_init 2 = Inr (BufMgr_fields 2)" by (simp add: BufMgr_init_Inr)
  have b: "BufMgr_init 2 = Inr (BufMgr_fields 2) \<and> 0 < (2::nat) \<and>
    length [(1::nat, 1::nat), (1, 2)] = 2 \<and>
    distinct [(1, 3), (1, 1), (1, 2 :: nat)] \<and>
    (\<forall>log f q. fl_readPage allOK log f q \<noteq> None)"
    using i by (simp add: allOK_def)
  from t [THEN conjunct2, THEN mp, OF b]
  have two: "fst (readPage allOK 1 3 (fetch_all allOK [(1, 1), (1, 2)] (BufMgr_fields 2))) =
     Inl BufferExceededException" .
  from b have d: "distinct [(1, 3), (1, 1), (1, 2 :: nat)]" by blast
  from a m w ab r rp i two d show ?thesis by simp
qed

text \<open>
  The claim's bound fails on the pool of one frame with its page pinned: the scan clears
  the reference bit once and then skips the pinned frame twice before it throws. It
  leaves the loop with \<open>count = 2\<close> after three rounds, in a pool of one frame.
\<close>

theorem allocBuf_attempts_exceed_numBufs:
  "numBufs fetched1 = 1 \<and>
   list_all (\<lambda>d. valid d \<and> 0 < pinCnt d) (bufDescTable fetched1) \<and>
   fst (allocBuf allOK fetched1) = Inl BufferExceededException \<and>
   allocBuf allOK fetched1 = fst (allocBuf_while allOK fetched1 0 0) \<and>
   snd (allocBuf_while allOK fetched1 0 0) = (2, 3) \<and>
   \<not> fst (snd (allocBuf_while allOK fetched1 0 0)) \<le> numBufs fetched1"
proof -
  have w: "allocBuf_while allOK fetched1 0 0 =
      ((Inl BufferExceededException,
        fetched1\<lparr>bufDescTable :=
          [\<lparr>file_ptr = Some 1, pageNo = 1, frameNo = 0, pinCnt = 1, dirty = False,
            valid = True, refbit = False\<rparr>]\<rparr>), 2, 3)"
    by (simp add: fetched1_eq numBufs_def advanceClock_def upd_desc_def Let_def
          allocBuf_while.simps)
  have "numBufs fetched1 = 1"
    "list_all (\<lambda>d. valid d \<and> 0 < pinCnt d) (bufDescTable fetched1)"
    by (simp_all add: fetched1_eq numBufs_def)
  moreover have "allocBuf allOK fetched1 = fst (allocBuf_while allOK fetched1 0 0)"
    by (simp add: allocBuf_def allocBuf_loop_def)
  ultimately show ?thesis by (simp add: w)
qed

subsection \<open>unPinPage\<close>

text \<open>
  C6: \<open>unPinPage f p markDirty\<close> returns normally and leaves the state as it is when
  \<open>(f, p)\<close> is not in the hash table. When the table gives frame \<open>fr\<close>, it throws
  \<open>PageNotPinnedException\<close> with the state unchanged if the frame's \<open>pinCnt\<close> is 0,
  and otherwise (so: if and only if) returns normally with \<open>pinCnt\<close> one less and
  \<open>dirty\<close> set when \<open>markDirty\<close> holds. No frame that was dirty is clean
  afterwards.
\<close>

theorem unPinPage_cases:
  "(hashTable s (f, p) = None \<longrightarrow> unPinPage f p markDirty s = (Inr (), s)) \<and>
   (\<forall>fr. hashTable s (f, p) = Some fr \<longrightarrow>
      (pinCnt (bufDescTable s ! fr) = 0 \<longrightarrow>
         unPinPage f p markDirty s = (Inl (PageNotPinnedException f p fr), s)) \<and>
      (pinCnt (bufDescTable s ! fr) \<noteq> 0 \<longrightarrow>
         unPinPage f p markDirty s =
           (Inr (),
            upd_desc fr (\<lambda>d. d\<lparr>pinCnt := pinCnt d - 1, dirty := markDirty \<or> dirty d\<rparr>) s))) \<and>
   (\<forall>i < numBufs s. dirty (bufDescTable s ! i) \<longrightarrow>
      dirty (bufDescTable (snd (unPinPage f p markDirty s)) ! i))"
proof (intro conjI allI impI)
  assume "hashTable s (f, p) = None"
  then show "unPinPage f p markDirty s = (Inr (), s)"
    by (simp add: unPinPage_def)
next
  fix fr
  assume "hashTable s (f, p) = Some fr" "pinCnt (bufDescTable s ! fr) = 0"
  then show "unPinPage f p markDirty s = (Inl (PageNotPinnedException f p fr), s)"
    by (simp add: unPinPage_def)
next
  fix fr
  assume h: "hashTable s (f, p) = Some fr" "pinCnt (bufDescTable s ! fr) \<noteq> 0"
  have "upd_desc fr (\<lambda>d. d\<lparr>pinCnt := pinCnt d - 1\<rparr>) s =
        upd_desc fr (\<lambda>d. d\<lparr>pinCnt := pinCnt d - 1, dirty := False \<or> dirty d\<rparr>) s"
    by simp
  with h show "unPinPage f p markDirty s =
           (Inr (),
            upd_desc fr (\<lambda>d. d\<lparr>pinCnt := pinCnt d - 1, dirty := markDirty \<or> dirty d\<rparr>) s)"
    by (cases markDirty) (simp_all add: unPinPage_def Let_def upd_desc_twice)
next
  fix i
  assume i: "i < numBufs s" "dirty (bufDescTable s ! i)"
  then have len: "i < length (bufDescTable s)" by (simp add: numBufs_def)
  show "dirty (bufDescTable (snd (unPinPage f p markDirty s)) ! i)"
  proof (cases "hashTable s (f, p)")
    case None
    with i show ?thesis by (simp add: unPinPage_def)
  next
    case (Some fr)
    with i len show ?thesis
      by (auto simp: unPinPage_def Let_def nth_upd_desc)
  qed
qed

theorem unPinPage_cases_witness:
  "hashTable fetched1 (1, 1) = Some 0 \<and> pinCnt (bufDescTable fetched1 ! 0) \<noteq> 0 \<and>
   unPinPage 1 1 True fetched1 = (Inr (), released1 True) \<and>
   hashTable (released1 True) (1, 2) = None \<and>
   unPinPage 1 2 True (released1 True) = (Inr (), released1 True) \<and>
   hashTable (released1 True) (1, 1) = Some 0 \<and>
   pinCnt (bufDescTable (released1 True) ! 0) = 0 \<and>
   unPinPage 1 1 False (released1 True) =
     (Inl (PageNotPinnedException 1 1 0), released1 True) \<and>
   0 < numBufs (released1 True) \<and> dirty (bufDescTable (released1 True) ! 0) \<and>
   dirty (bufDescTable (snd (unPinPage 1 1 False (released1 True))) ! 0)"
proof -
  have a: "hashTable fetched1 (1, 1) = Some 0" "pinCnt (bufDescTable fetched1 ! 0) \<noteq> 0"
    by (simp_all add: fetched1_eq)
  have b: "hashTable (released1 True) (1, 2) = None" "hashTable (released1 True) (1, 1) = Some 0"
    "pinCnt (bufDescTable (released1 True) ! 0) = 0" "0 < numBufs (released1 True)"
    "dirty (bufDescTable (released1 True) ! 0)"
    by (simp_all add: released1_eq numBufs_def)
  from unPinPage_cases [of fetched1 1 1 True] a
  have "unPinPage 1 1 True fetched1 =
     (Inr (), upd_desc 0 (\<lambda>d. d\<lparr>pinCnt := pinCnt d - 1, dirty := True \<or> dirty d\<rparr>) fetched1)"
    by blast
  then have c: "unPinPage 1 1 True fetched1 = (Inr (), released1 True)"
    by (simp add: released1_def)
  from unPinPage_cases [of "released1 True" 1 2 True] b
  have d: "unPinPage 1 2 True (released1 True) = (Inr (), released1 True)" by blast
  from unPinPage_cases [of "released1 True" 1 1 False] b
  have e: "unPinPage 1 1 False (released1 True) =
     (Inl (PageNotPinnedException 1 1 0), released1 True)" by blast
  from unPinPage_cases [of "released1 True" 1 1 False] b
  have f: "dirty (bufDescTable (snd (unPinPage 1 1 False (released1 True))) ! 0)" by blast
  from a b c d e f show ?thesis by blast
qed

subsection \<open>disposePage\<close>

text \<open>
  C10: when \<open>disposePage f p\<close> finds \<open>(f, p)\<close> in the hash table at frame \<open>fr\<close>
  and \<open>File::deletePage\<close> then throws, the exception is swallowed (the call returns
  normally) and the state keeps what the \<^verbatim>\<open>try\<close> block had done: the entry is gone
  from the hash table and the descriptor of \<open>fr\<close> is unoccupied (\<open>valid = false\<close>, no
  owner).
\<close>

theorem disposePage_delete_fails:
  "hashTable s (f, p) = Some fr \<and> fr < numBufs s \<and> \<not> fl_deletePage fl (io s) f p \<longrightarrow>
     fst (disposePage_try fl f p s) = Inl FileException \<and>
     disposePage fl f p s = (Inr (), snd (disposePage_try fl f p s)) \<and>
     hashTable (snd (disposePage fl f p s)) (f, p) = None \<and>
     \<not> valid (bufDescTable (snd (disposePage fl f p s)) ! fr) \<and>
     file_ptr (bufDescTable (snd (disposePage fl f p s)) ! fr) = None \<and>
     io (snd (disposePage fl f p s)) = io s @ [DeletePage f p]"
  by (simp add: disposePage_def disposePage_try_def Let_def hash_remove_def log_io_def
        upd_desc_def Clear_def numBufs_def)

theorem disposePage_delete_fails_witness:
  "hashTable (released1 True) (1, 1) = Some 0 \<and> 0 < numBufs (released1 True) \<and>
   \<not> fl_deletePage failing_delete (io (released1 True)) 1 1 \<and>
   valid (bufDescTable (released1 True) ! 0) \<and>
   fst (disposePage_try failing_delete 1 1 (released1 True)) = Inl FileException \<and>
   fst (disposePage failing_delete 1 1 (released1 True)) = Inr () \<and>
   hashTable (snd (disposePage failing_delete 1 1 (released1 True))) (1, 1) = None \<and>
   \<not> valid (bufDescTable (snd (disposePage failing_delete 1 1 (released1 True))) ! 0) \<and>
   file_ptr (bufDescTable (snd (disposePage failing_delete 1 1 (released1 True))) ! 0) = None"
proof -
  have a: "hashTable (released1 True) (1, 1) = Some 0" "0 < numBufs (released1 True)"
    "\<not> fl_deletePage failing_delete (io (released1 True)) 1 1"
    "valid (bufDescTable (released1 True) ! 0)"
    by (simp_all add: released1_eq numBufs_def failing_delete_def allOK_def)
  from disposePage_delete_fails [of "released1 True" 1 1 0 failing_delete] a
  have c: "fst (disposePage_try failing_delete 1 1 (released1 True)) = Inl FileException \<and>
     disposePage failing_delete 1 1 (released1 True) =
       (Inr (), snd (disposePage_try failing_delete 1 1 (released1 True))) \<and>
     hashTable (snd (disposePage failing_delete 1 1 (released1 True))) (1, 1) = None \<and>
     \<not> valid (bufDescTable (snd (disposePage failing_delete 1 1 (released1 True))) ! 0) \<and>
     file_ptr (bufDescTable (snd (disposePage failing_delete 1 1 (released1 True))) ! 0) = None"
    by blast
  then have "fst (disposePage failing_delete 1 1 (released1 True)) = Inr ()" by simp
  with a c show ?thesis by blast
qed

text \<open>
  C8: \<open>disposePage\<close> should ask the file layer to delete the page whether or not the
  page is in the pool, as its header comment says (delete page from file and also from
  buffer pool if present). In the code the deletion stands inside the \<^verbatim>\<open>try\<close> block
  after the lookup: when \<open>(f, p)\<close> is not in the hash table the lookup throws, the
  handler swallows it, and \<open>File::deletePage\<close> is never called. On the one-frame pool
  holding page 1 of file 1, disposing of page 2 returns normally with the state unchanged
  and the log still holding only the first read.
\<close>

theorem disposePage_absent_no_delete:
  "hashTable (released1 True) (1, 2) = None \<and>
   fst (disposePage_try allOK 1 2 (released1 True)) = Inl HashNotFoundException \<and>
   disposePage allOK 1 2 (released1 True) = (Inr (), released1 True) \<and>
   io (snd (disposePage allOK 1 2 (released1 True))) = [ReadPage 1 1]"
  by (simp add: disposePage_def disposePage_try_def released1_eq)

subsection \<open>flushFile\<close>

lemma flushFile_frames_append:
  "flushFile_frames fl f (xs @ ys) s =
     (case flushFile_frames fl f xs s of
        (Inl e, s') \<Rightarrow> (Inl e, s')
      | (Inr u, s') \<Rightarrow> flushFile_frames fl f ys s')"
  by (induction xs arbitrary: s) (simp_all add: Let_def)

lemma flushFile_frames_ok:
  assumes "\<forall>j \<in> set xs. valid (bufDescTable s ! j) \<and>
             (file_ptr (bufDescTable s ! j) = Some f \<longrightarrow> pinCnt (bufDescTable s ! j) = 0)"
    and "\<forall>log pg. fl_writePage fl log f pg"
  shows "fst (flushFile_frames fl f xs s) = Inr () \<and>
         bufDescTable (snd (flushFile_frames fl f xs s)) = bufDescTable s \<and>
         bufPool (snd (flushFile_frames fl f xs s)) = bufPool s \<and>
         clockHand (snd (flushFile_frames fl f xs s)) = clockHand s \<and>
         (\<forall>k. hashTable (snd (flushFile_frames fl f xs s)) k =
            (if \<exists>j \<in> set xs. file_ptr (bufDescTable s ! j) = Some f \<and>
                               k = (f, pageNo (bufDescTable s ! j))
             then None else hashTable s k)) \<and>
         io (snd (flushFile_frames fl f xs s)) =
           io s @ map (\<lambda>j. WritePage f (bufPool s ! j))
                    (filter (\<lambda>j. file_ptr (bufDescTable s ! j) = Some f \<and>
                                  dirty (bufDescTable s ! j)) xs)"
  using assms
proof (induction xs arbitrary: s)
  case Nil
  show ?case by simp
next
  case (Cons i rest)
  let ?d = "bufDescTable s ! i"
  from Cons.prems have v: "valid ?d" and pin: "file_ptr ?d = Some f \<longrightarrow> pinCnt ?d = 0"
    by simp_all
  show ?case
  proof (cases "file_ptr ?d = Some f")
    case False
    with v have step: "flushFile_frames fl f (i # rest) s = flushFile_frames fl f rest s"
      by (simp add: Let_def)
    from Cons.prems have "\<forall>j \<in> set rest. valid (bufDescTable s ! j) \<and>
             (file_ptr (bufDescTable s ! j) = Some f \<longrightarrow> pinCnt (bufDescTable s ! j) = 0)"
      by simp
    from Cons.IH [OF this Cons.prems(2)] False show ?thesis
      unfolding step by auto
  next
    case own: True
    define s2 where "s2 = (if dirty ?d then log_io (WritePage f (bufPool s ! i)) s else s)
        \<lparr>hashTable := hash_remove f (pageNo ?d) (hashTable s)\<rparr>"
    from v own pin Cons.prems(2)
    have step: "flushFile_frames fl f (i # rest) s = flushFile_frames fl f rest s2"
      by (simp add: Let_def s2_def log_io_def)
    have t: "bufDescTable s2 = bufDescTable s" "bufPool s2 = bufPool s"
      "clockHand s2 = clockHand s"
      "hashTable s2 = hash_remove f (pageNo ?d) (hashTable s)"
      "io s2 = io s @ (if dirty ?d then [WritePage f (bufPool s ! i)] else [])"
      by (simp_all add: s2_def log_io_def)
    from Cons.prems have "\<forall>j \<in> set rest. valid (bufDescTable s2 ! j) \<and>
             (file_ptr (bufDescTable s2 ! j) = Some f \<longrightarrow> pinCnt (bufDescTable s2 ! j) = 0)"
      by (simp add: t)
    from Cons.IH [OF this Cons.prems(2)] own show ?thesis
      unfolding step t by (auto simp: hash_remove_def)
  qed
qed

lemma flushFile_frames_stop:
  "\<not> valid (bufDescTable s ! i) \<Longrightarrow>
   flushFile_frames fl f (i # rest) s =
     (Inl (BadBufferException (frameNo (bufDescTable s ! i)) (dirty (bufDescTable s ! i))
             False (refbit (bufDescTable s ! i))), s)"
  "valid (bufDescTable s ! i) \<Longrightarrow> file_ptr (bufDescTable s ! i) = Some f \<Longrightarrow>
   pinCnt (bufDescTable s ! i) \<noteq> 0 \<Longrightarrow>
   flushFile_frames fl f (i # rest) s =
     (Inl (PagePinnedException f (pageNo (bufDescTable s ! i)) (frameNo (bufDescTable s ! i))),
      s)"
  by (simp_all add: Let_def)

text \<open>
  C7: \<open>flushFile f\<close> scans the frames in frame order. Let frame \<open>i\<close> be the first
  that is invalid, or owned by \<open>f\<close> and pinned (every write of the file layer
  succeeding). If frame \<open>i\<close> is invalid, whoever owns it, the call throws
  \<open>BadBufferException\<close>; if it is valid, owned by \<open>f\<close> and pinned, the call throws
  \<open>PagePinnedException\<close>. Either way the state it leaves is the state after the frames
  before \<open>i\<close> were processed, nothing rolled back: every frame before \<open>i\<close> that
  \<open>f\<close> owns has lost its hash table entry, and its page has been written if it was
  dirty.
\<close>

theorem flushFile_fails_at:
  "i < numBufs s \<and>
   (\<forall>j<i. valid (bufDescTable s ! j) \<and>
           (file_ptr (bufDescTable s ! j) = Some f \<longrightarrow> pinCnt (bufDescTable s ! j) = 0)) \<and>
   (\<forall>log pg. fl_writePage fl log f pg) \<longrightarrow>
   (\<not> valid (bufDescTable s ! i) \<longrightarrow>
      fst (flushFile fl f s) =
        Inl (BadBufferException (frameNo (bufDescTable s ! i)) (dirty (bufDescTable s ! i))
               False (refbit (bufDescTable s ! i)))) \<and>
   (valid (bufDescTable s ! i) \<and> file_ptr (bufDescTable s ! i) = Some f \<and>
    pinCnt (bufDescTable s ! i) \<noteq> 0 \<longrightarrow>
      fst (flushFile fl f s) =
        Inl (PagePinnedException f (pageNo (bufDescTable s ! i))
               (frameNo (bufDescTable s ! i)))) \<and>
   (\<not> valid (bufDescTable s ! i) \<or>
    file_ptr (bufDescTable s ! i) = Some f \<and> pinCnt (bufDescTable s ! i) \<noteq> 0 \<longrightarrow>
      fst (flushFile_frames fl f [0..<i] s) = Inr () \<and>
      snd (flushFile fl f s) = snd (flushFile_frames fl f [0..<i] s) \<and>
      (\<forall>j<i. file_ptr (bufDescTable s ! j) = Some f \<longrightarrow>
         hashTable (snd (flushFile fl f s)) (f, pageNo (bufDescTable s ! j)) = None \<and>
         (dirty (bufDescTable s ! j) \<longrightarrow>
            WritePage f (bufPool s ! j) \<in> set (io (snd (flushFile fl f s))))))"
proof (intro impI)
  assume a: "i < numBufs s \<and>
   (\<forall>j<i. valid (bufDescTable s ! j) \<and>
           (file_ptr (bufDescTable s ! j) = Some f \<longrightarrow> pinCnt (bufDescTable s ! j) = 0)) \<and>
   (\<forall>log pg. fl_writePage fl log f pg)"
  define s' where "s' = snd (flushFile_frames fl f [0..<i] s)"
  from a have "[0..<i + (numBufs s - i)] = [0..<i] @ [i..<i + (numBufs s - i)]"
    by (intro upt_add_eq_append) simp
  moreover from a have "[i..<numBufs s] = i # [Suc i..<numBufs s]"
    by (intro upt_conv_Cons) simp
  ultimately have split: "[0..<numBufs s] = [0..<i] @ i # [Suc i..<numBufs s]"
    using a by simp
  from a have pre: "\<forall>j \<in> set [0..<i]. valid (bufDescTable s ! j) \<and>
             (file_ptr (bufDescTable s ! j) = Some f \<longrightarrow> pinCnt (bufDescTable s ! j) = 0)"
    by simp
  from a have wr: "\<forall>log pg. fl_writePage fl log f pg" by simp
  note ok = flushFile_frames_ok [OF pre wr, folded s'_def]
  from ok have p: "flushFile_frames fl f [0..<i] s = (Inr (), s')"
    by (simp add: s'_def prod_eq_iff)
  have run: "flushFile fl f s = flushFile_frames fl f (i # [Suc i..<numBufs s]) s'"
    unfolding flushFile_def split flushFile_frames_append p by simp
  from ok have t: "bufDescTable s' = bufDescTable s" by simp
  have bad: "\<not> valid (bufDescTable s ! i) \<Longrightarrow>
      flushFile fl f s =
        (Inl (BadBufferException (frameNo (bufDescTable s ! i)) (dirty (bufDescTable s ! i))
               False (refbit (bufDescTable s ! i))), s')"
    unfolding run using flushFile_frames_stop(1) [of s' i fl f] by (simp add: t)
  have pinned: "valid (bufDescTable s ! i) \<and> file_ptr (bufDescTable s ! i) = Some f \<and>
    pinCnt (bufDescTable s ! i) \<noteq> 0 \<Longrightarrow>
      flushFile fl f s =
        (Inl (PagePinnedException f (pageNo (bufDescTable s ! i))
               (frameNo (bufDescTable s ! i))), s')"
    unfolding run using flushFile_frames_stop(2) [of s' i f fl] by (simp add: t)
  have eff: "\<forall>j<i. file_ptr (bufDescTable s ! j) = Some f \<longrightarrow>
         hashTable s' (f, pageNo (bufDescTable s ! j)) = None \<and>
         (dirty (bufDescTable s ! j) \<longrightarrow> WritePage f (bufPool s ! j) \<in> set (io s'))"
    using ok by auto
  show "(\<not> valid (bufDescTable s ! i) \<longrightarrow>
      fst (flushFile fl f s) =
        Inl (BadBufferException (frameNo (bufDescTable s ! i)) (dirty (bufDescTable s ! i))
               False (refbit (bufDescTable s ! i)))) \<and>
   (valid (bufDescTable s ! i) \<and> file_ptr (bufDescTable s ! i) = Some f \<and>
    pinCnt (bufDescTable s ! i) \<noteq> 0 \<longrightarrow>
      fst (flushFile fl f s) =
        Inl (PagePinnedException f (pageNo (bufDescTable s ! i))
               (frameNo (bufDescTable s ! i)))) \<and>
   (\<not> valid (bufDescTable s ! i) \<or>
    file_ptr (bufDescTable s ! i) = Some f \<and> pinCnt (bufDescTable s ! i) \<noteq> 0 \<longrightarrow>
      fst (flushFile_frames fl f [0..<i] s) = Inr () \<and>
      snd (flushFile fl f s) = snd (flushFile_frames fl f [0..<i] s) \<and>
      (\<forall>j<i. file_ptr (bufDescTable s ! j) = Some f \<longrightarrow>
         hashTable (snd (flushFile fl f s)) (f, pageNo (bufDescTable s ! j)) = None \<and>
         (dirty (bufDescTable s ! j) \<longrightarrow>
            WritePage f (bufPool s ! j) \<in> set (io (snd (flushFile fl f s))))))"
  proof (intro conjI impI)
    assume "\<not> valid (bufDescTable s ! i)"
    from bad [OF this] show "fst (flushFile fl f s) =
        Inl (BadBufferException (frameNo (bufDescTable s ! i)) (dirty (bufDescTable s ! i))
               False (refbit (bufDescTable s ! i)))" by simp
  next
    assume "valid (bufDescTable s ! i) \<and> file_ptr (bufDescTable s ! i) = Some f \<and>
      pinCnt (bufDescTable s ! i) \<noteq> 0"
    from pinned [OF this] show "fst (flushFile fl f s) =
        Inl (PagePinnedException f (pageNo (bufDescTable s ! i))
               (frameNo (bufDescTable s ! i)))" by simp
  next
    assume "\<not> valid (bufDescTable s ! i) \<or>
      file_ptr (bufDescTable s ! i) = Some f \<and> pinCnt (bufDescTable s ! i) \<noteq> 0"
    from p show "fst (flushFile_frames fl f [0..<i] s) = Inr ()" by simp
  next
    assume f: "\<not> valid (bufDescTable s ! i) \<or>
      file_ptr (bufDescTable s ! i) = Some f \<and> pinCnt (bufDescTable s ! i) \<noteq> 0"
    then have st: "snd (flushFile fl f s) = s'"
      using bad pinned by (cases "valid (bufDescTable s ! i)") auto
    then show "snd (flushFile fl f s) = snd (flushFile_frames fl f [0..<i] s)"
      by (simp add: s'_def)
    from eff show "\<forall>j<i. file_ptr (bufDescTable s ! j) = Some f \<longrightarrow>
         hashTable (snd (flushFile fl f s)) (f, pageNo (bufDescTable s ! j)) = None \<and>
         (dirty (bufDescTable s ! j) \<longrightarrow>
            WritePage f (bufPool s ! j) \<in> set (io (snd (flushFile fl f s))))"
      unfolding st .
  qed
qed

theorem flushFile_fails_at_witness:
  "1 < numBufs one_of_two \<and> valid (bufDescTable one_of_two ! 0) \<and>
   file_ptr (bufDescTable one_of_two ! 0) = Some 1 \<and> pinCnt (bufDescTable one_of_two ! 0) = 0 \<and>
   dirty (bufDescTable one_of_two ! 0) \<and> \<not> valid (bufDescTable one_of_two ! 1) \<and>
   fst (flushFile allOK 1 one_of_two) = Inl (BadBufferException 1 False False False) \<and>
   hashTable one_of_two (1, 1) = Some 0 \<and>
   hashTable (snd (flushFile allOK 1 one_of_two)) (1, 1) = None \<and>
   WritePage 1 \<lparr>page_number = 1, content = 0\<rparr> \<in> set (io (snd (flushFile allOK 1 one_of_two))) \<and>
   1 < numBufs half_pinned2 \<and> valid (bufDescTable half_pinned2 ! 1) \<and>
   pinCnt (bufDescTable half_pinned2 ! 1) = 1 \<and>
   fst (flushFile allOK 1 half_pinned2) = Inl (PagePinnedException 1 2 1) \<and>
   hashTable (snd (flushFile allOK 1 half_pinned2)) (1, 1) = None \<and>
   WritePage 1 \<lparr>page_number = 1, content = 0\<rparr> \<in> set (io (snd (flushFile allOK 1 half_pinned2)))"
proof -
  have w: "\<forall>log pg. fl_writePage allOK log 1 pg" by (simp add: allOK_def)
  have a: "1 < numBufs one_of_two" "valid (bufDescTable one_of_two ! 0)"
    "file_ptr (bufDescTable one_of_two ! 0) = Some 1" "pinCnt (bufDescTable one_of_two ! 0) = 0"
    "dirty (bufDescTable one_of_two ! 0)" "\<not> valid (bufDescTable one_of_two ! 1)"
    "hashTable one_of_two (1, 1) = Some 0"
    and a': "pageNo (bufDescTable one_of_two ! 0) = 1"
    "bufPool one_of_two ! 0 = \<lparr>page_number = 1, content = 0\<rparr>"
    "frameNo (bufDescTable one_of_two ! 1) = 1" "\<not> dirty (bufDescTable one_of_two ! 1)"
    "\<not> refbit (bufDescTable one_of_two ! 1)"
    by (simp_all add: one_of_two_eq numBufs_def)
  have pre1: "\<forall>j<1. valid (bufDescTable one_of_two ! j) \<and>
           (file_ptr (bufDescTable one_of_two ! j) = Some 1 \<longrightarrow>
            pinCnt (bufDescTable one_of_two ! j) = 0)"
    using a by simp
  have hyp1: "1 < numBufs one_of_two \<and>
     (\<forall>j<1. valid (bufDescTable one_of_two ! j) \<and>
           (file_ptr (bufDescTable one_of_two ! j) = Some 1 \<longrightarrow>
            pinCnt (bufDescTable one_of_two ! j) = 0)) \<and>
     (\<forall>log pg. fl_writePage allOK log 1 pg)"
    by (intro conjI a(1) pre1 w)
  note c1 = flushFile_fails_at [of 1 one_of_two 1 allOK, THEN mp, OF hyp1]
  from c1 [THEN conjunct1, THEN mp, OF a(6)] a'
  have r1: "fst (flushFile allOK 1 one_of_two) = Inl (BadBufferException 1 False False False)"
    by simp
  from c1 [THEN conjunct2, THEN conjunct2, THEN mp, OF disjI1, OF a(6), THEN conjunct2,
      THEN conjunct2, THEN spec, of 0, THEN mp, OF zero_less_one]
  have "file_ptr (bufDescTable one_of_two ! 0) = Some 1 \<longrightarrow>
         hashTable (snd (flushFile allOK 1 one_of_two)) (1, pageNo (bufDescTable one_of_two ! 0)) = None \<and>
         (dirty (bufDescTable one_of_two ! 0) \<longrightarrow>
            WritePage 1 (bufPool one_of_two ! 0) \<in> set (io (snd (flushFile allOK 1 one_of_two))))"
    by simp
  with a(3) a(5) a'(1) a'(2)
  have x1: "hashTable (snd (flushFile allOK 1 one_of_two)) (1, 1) = None"
    "WritePage 1 \<lparr>page_number = 1, content = 0\<rparr> \<in> set (io (snd (flushFile allOK 1 one_of_two)))"
    by simp_all
  have b: "1 < numBufs half_pinned2" "valid (bufDescTable half_pinned2 ! 1)"
    "pinCnt (bufDescTable half_pinned2 ! 1) = 1"
    and b': "file_ptr (bufDescTable half_pinned2 ! 0) = Some 1"
    "pinCnt (bufDescTable half_pinned2 ! 0) = 0" "valid (bufDescTable half_pinned2 ! 0)"
    "dirty (bufDescTable half_pinned2 ! 0)"
    "file_ptr (bufDescTable half_pinned2 ! 1) = Some 1"
    "pageNo (bufDescTable half_pinned2 ! 0) = 1"
    "bufPool half_pinned2 ! 0 = \<lparr>page_number = 1, content = 0\<rparr>"
    "frameNo (bufDescTable half_pinned2 ! 1) = 1" "pageNo (bufDescTable half_pinned2 ! 1) = 2"
    by (simp_all add: half_pinned2_eq numBufs_def)
  have pre2: "\<forall>j<1. valid (bufDescTable half_pinned2 ! j) \<and>
           (file_ptr (bufDescTable half_pinned2 ! j) = Some 1 \<longrightarrow>
            pinCnt (bufDescTable half_pinned2 ! j) = 0)"
    using b' by simp
  have hyp2: "1 < numBufs half_pinned2 \<and>
     (\<forall>j<1. valid (bufDescTable half_pinned2 ! j) \<and>
           (file_ptr (bufDescTable half_pinned2 ! j) = Some 1 \<longrightarrow>
            pinCnt (bufDescTable half_pinned2 ! j) = 0)) \<and>
     (\<forall>log pg. fl_writePage allOK log 1 pg)"
    by (intro conjI b(1) pre2 w)
  have pin2: "valid (bufDescTable half_pinned2 ! 1) \<and>
      file_ptr (bufDescTable half_pinned2 ! 1) = Some 1 \<and>
      pinCnt (bufDescTable half_pinned2 ! 1) \<noteq> 0"
    using b b' by simp
  note c2 = flushFile_fails_at [of 1 half_pinned2 1 allOK, THEN mp, OF hyp2]
  from c2 [THEN conjunct2, THEN conjunct1, THEN mp, OF pin2] b'
  have r2: "fst (flushFile allOK 1 half_pinned2) = Inl (PagePinnedException 1 2 1)"
    by simp
  from pin2 have "\<not> valid (bufDescTable half_pinned2 ! 1) \<or>
      file_ptr (bufDescTable half_pinned2 ! 1) = Some 1 \<and>
      pinCnt (bufDescTable half_pinned2 ! 1) \<noteq> 0" by simp
  from c2 [THEN conjunct2, THEN conjunct2, THEN mp, OF this, THEN conjunct2,
      THEN conjunct2, THEN spec, of 0, THEN mp, OF zero_less_one]
  have "file_ptr (bufDescTable half_pinned2 ! 0) = Some 1 \<longrightarrow>
         hashTable (snd (flushFile allOK 1 half_pinned2)) (1, pageNo (bufDescTable half_pinned2 ! 0)) = None \<and>
         (dirty (bufDescTable half_pinned2 ! 0) \<longrightarrow>
            WritePage 1 (bufPool half_pinned2 ! 0) \<in> set (io (snd (flushFile allOK 1 half_pinned2))))"
    by simp
  with b'
  have x2: "hashTable (snd (flushFile allOK 1 half_pinned2)) (1, 1) = None"
    "WritePage 1 \<lparr>page_number = 1, content = 0\<rparr> \<in> set (io (snd (flushFile allOK 1 half_pinned2)))"
    by simp_all
  show ?thesis
    by (intro conjI a b r1 r2 x1 x2)
qed

text \<open>
  C3: after a successful \<open>flushFile f\<close> the descriptors of the frames of \<open>f\<close>
  should be unoccupied (\<open>valid = false\<close>, no owner) with their dirty flags cleared. The
  loop works on \<^verbatim>\<open>BufDesc frame = bufDescTable[i]\<close>, a copy: the write and the removal
  from the hash table happen, the reset does not reach \<open>bufDescTable\<close>. On the pool of
  one frame holding page 1 of file 1, dirty and unpinned, \<open>flushFile\<close> returns normally,
  the page has been written and its entry is gone from the hash table, and the descriptor
  is still valid, still owned by file 1 and still dirty.
\<close>

theorem flushFile_leaves_descriptors:
  "fst (flushFile allOK 1 (released1 True)) = Inr () \<and>
   io (snd (flushFile allOK 1 (released1 True))) =
     [ReadPage 1 1, WritePage 1 \<lparr>page_number = 1, content = 0\<rparr>] \<and>
   hashTable (snd (flushFile allOK 1 (released1 True))) (1, 1) = None \<and>
   valid (bufDescTable (snd (flushFile allOK 1 (released1 True))) ! 0) \<and>
   file_ptr (bufDescTable (snd (flushFile allOK 1 (released1 True))) ! 0) = Some 1 \<and>
   dirty (bufDescTable (snd (flushFile allOK 1 (released1 True))) ! 0)"
  by (simp add: flushFile_def released1_eq numBufs_def Let_def log_io_def hash_remove_def
        allOK_def)

text \<open>
  C2: in every state the public operations reach, the hash table should map the key of
  every valid frame to that frame. \<open>flushFile\<close> removes the entries and leaves the
  descriptors valid: from the constructor, \<open>readPage\<close> of page 1 of file 1,
  \<open>unPinPage\<close> and \<open>flushFile\<close> of file 1 all return normally, and frame 0 is then
  valid with owner file 1 and page 1 while the hash table has no entry for \<open>(1, 1)\<close>.
\<close>

theorem flushFile_breaks_index:
  "fst (flushFile allOK 1 (released1 False)) = Inr () \<and>
   valid (bufDescTable (snd (flushFile allOK 1 (released1 False))) ! 0) \<and>
   file_ptr (bufDescTable (snd (flushFile allOK 1 (released1 False))) ! 0) = Some 1 \<and>
   pageNo (bufDescTable (snd (flushFile allOK 1 (released1 False))) ! 0) = 1 \<and>
   hashTable (snd (flushFile allOK 1 (released1 False))) (1, 1) = None"
  by (simp add: flushFile_def released1_eq numBufs_def Let_def log_io_def hash_remove_def
        allOK_def)

end
